theory Spec2Isabelle
  imports Main "HOL-Library.Word" "HOL-Library.Multiset"
begin

section \<open>Common vocabulary of \<^verbatim>\<open>copyS3File.cpp\<close> and \<^verbatim>\<open>WriteBufferFromS3.cpp\<close>\<close>

text \<open>
  \<^verbatim>\<open>size_t\<close> is the 64-bit unsigned integer of the LP64 targets the code is built for (the
  source writes \<^verbatim>\<open>std::max(max_unexpected_write_error_retries, 1UL)\<close>); its arithmetic wraps
  around.  \<^verbatim>\<open>static_cast<int>\<close> of a \<^verbatim>\<open>size_t\<close> keeps the low 32 bits, read as two's
  complement.
\<close>

type_synonym size_t = "64 word"

definition static_cast_int :: "size_t \<Rightarrow> int" where
  "static_cast_int n = sint (ucast n :: 32 word)"

text \<open>
  The fields of \<^verbatim>\<open>S3Settings::RequestSettings::PartUploadSettings\<close> that the two files read.
  The structure is declared in a header that is not part of the sources at hand; every field
  is used as a \<^verbatim>\<open>size_t\<close>.  \<^verbatim>\<open>storage_class_name\<close> only decorates requests and is left out.
\<close>

record PartUploadSettings =
  min_upload_part_size :: size_t
  max_upload_part_size :: size_t
  upload_part_size_multiply_factor :: size_t
  upload_part_size_multiply_parts_count_threshold :: size_t
  max_part_number :: size_t
  max_single_part_upload_size :: size_t
  max_single_operation_copy_size :: size_t

text \<open>Exceptions: \<^verbatim>\<open>DB::Exception\<close> with its error code, \<^verbatim>\<open>DB::S3Exception\<close> with the
  \<^verbatim>\<open>Aws::S3::S3Errors\<close> value it carries.  Messages are not modelled.  \<open>DivisionByZero\<close> stands
  for an unsigned division by zero: no C++ exception but undefined behaviour (a trap on the
  usual targets), in any case not a normal return.\<close>

datatype error_code = S3_ERROR | INVALID_CONFIG_PARAMETER | LOGICAL_ERROR

datatype S3Errors = NO_SUCH_KEY | NO_SUCH_UPLOAD | OTHER_S3_ERROR nat

datatype exception = Exception error_code | S3Exception S3Errors | DivisionByZero

record aws_error =
  GetErrorType :: S3Errors
  GetExceptionName :: string

text \<open>An outcome of the AWS client: the result (the upload id of CreateMultipartUpload, the
  ETag of UploadPart and UploadPartCopy, unused otherwise) or an error.\<close>

datatype outcome = Success string | Failure aws_error

text \<open>Request bodies: a window \<open>(offset, size)\<close> of the read buffer made by
  \<^verbatim>\<open>create_read_buffer\<close>, or the \<^verbatim>\<open>temporary_buffer\<close> stream with its \<^verbatim>\<open>tellp()\<close>.\<close>

datatype body = LimitSeekableReadBuffer size_t size_t | StringStream int

text \<open>The requests, with the fields the code sets that matter here: upload id, part number,
  body, the inclusive source range of a part copy, the list of completed parts.  Bucket, key,
  metadata, storage class and content type are the same for every request of a job.\<close>

datatype request =
    CreateMultipartUploadRequest
  | UploadPartRequest string int body
  | UploadPartCopyRequest string int size_t size_t
  | CompleteMultipartUploadRequest string "(string \<times> int) list"
  | AbortMultipartUploadRequest string
  | PutObjectRequest body
  | CopyObjectRequest
  | HeadObjectRequest

text \<open>The object store is a deterministic function of the requests it has answered so far
  and the request it receives.  A thread pool (\<^verbatim>\<open>ThreadPoolCallbackRunner\<close>) is described by
  the task steps it performs each time the calling thread gives it the opportunity: the
  \<open>n\<close>-th opportunity runs the steps \<open>pool n\<close>, each naming a task.\<close>

type_synonym s3_client = "(request \<times> outcome) list \<Rightarrow> request \<Rightarrow> outcome"

type_synonym executor = "nat \<Rightarrow> nat list"

text \<open>\<^verbatim>\<open>struct PutObjectTask\<close> and \<^verbatim>\<open>struct UploadPartTask\<close>; the second has the members
  of the first and a \<open>tag\<close>.  \<open>task_id\<close> stands for the address of an upload task (tasks are
  captured by pointer); \<open>started\<close> records that the scheduled closure has passed its first
  step, and \<open>failed\<close> holds the error of a part request that the store has refused, from the
  request until the closure has gone on to \<^verbatim>\<open>abortMultipartUpload\<close>.\<close>

record PutObjectTask =
  req :: "request option"
  is_finished :: bool
  exception :: "exception option"

record UploadPartTask = PutObjectTask +
  tag :: string
  task_id :: nat
  started :: bool
  failed :: "aws_error option"

definition new_task :: "nat \<Rightarrow> UploadPartTask" where
  "new_task i = \<lparr>req = None, is_finished = False, exception = None, tag = [], task_id = i,
     started = False, failed = None\<rparr>"

definition update_task :: "nat \<Rightarrow> (UploadPartTask \<Rightarrow> UploadPartTask) \<Rightarrow> UploadPartTask list
    \<Rightarrow> UploadPartTask list" where
  "update_task i f ts = map (\<lambda>t. if task_id t = i then f t else t) ts"

text \<open>What a call of a function leaves behind: it returns a value, or throws; the object and
  the object store are there afterwards in both cases.\<close>

datatype ('a, 's) result = Returned 'a 's | Thrown exception 's

primrec final_state :: "('a, 's) result \<Rightarrow> 's" where
  "final_state (Returned x s) = s"
| "final_state (Thrown e s) = s"

primrec returned :: "('a, 's) result \<Rightarrow> bool" where
  "returned (Returned x s) = True"
| "returned (Thrown e s) = False"

text \<open>Sequencing: the statements after a call run only when the call has returned.  The
  second form is for calls that contain a loop which may not end (the value \<open>None\<close>).\<close>

definition andThen :: "('a, 's) result \<Rightarrow> ('a \<Rightarrow> 's \<Rightarrow> ('b, 's) result) \<Rightarrow> ('b, 's) result" where
  "andThen r f = (case r of Returned x s \<Rightarrow> f x s | Thrown e s \<Rightarrow> Thrown e s)"

definition andThenOpt :: "('a, 's) result option \<Rightarrow> ('a \<Rightarrow> 's \<Rightarrow> ('b, 's) result option)
    \<Rightarrow> ('b, 's) result option" where
  "andThenOpt r f =
     (case r of None \<Rightarrow> None | Some (Returned x s) \<Rightarrow> f x s | Some (Thrown e s) \<Rightarrow> Some (Thrown e s))"

text \<open>The members both classes have, the client with the log of its calls, and the number
  of opportunities the pool has had.\<close>

record s3_io =
  client_ptr :: s3_client
  calls :: "(request \<times> outcome) list"
  schedule :: "executor option"
  ticks :: nat
  settings :: PartUploadSettings
  check_objects_after_upload :: bool
  max_unexpected_write_error_retries :: size_t
  multipart_upload_id :: string
  part_tags :: "string list"
  num_added_bg_tasks :: int
  num_finished_bg_tasks :: int

definition send :: "request \<Rightarrow> 'a s3_io_scheme \<Rightarrow> outcome \<times> 'a s3_io_scheme" where
  "send r s = (let out = client_ptr s (calls s) r in (out, s\<lparr>calls := calls s @ [(r, out)]\<rparr>))"

definition requests :: "'a s3_io_scheme \<Rightarrow> request list" where
  "requests s = map fst (calls s)"

text \<open>An opportunity for the pool: without a pool nothing happens.\<close>

definition pool_runs :: "(nat \<Rightarrow> 'a s3_io_scheme \<Rightarrow> 'a s3_io_scheme) \<Rightarrow> 'a s3_io_scheme
    \<Rightarrow> 'a s3_io_scheme" where
  "pool_runs run_task s =
     (case schedule s of
        None \<Rightarrow> s
      | Some pool \<Rightarrow> (fold run_task (pool (ticks s)) s)\<lparr>ticks := Suc (ticks s)\<rparr>)"

text \<open>Modelled from the spec: \<^verbatim>\<open>S3::checkObjectExists\<close> (\<^verbatim>\<open>IO/S3Common.cpp\<close>) is not among the
  sources.  The specification: ``issue a HEAD on the destination; absence \<open>\<Rightarrow>\<close> Remote''.\<close>

definition checkObjectExists :: "'a s3_io_scheme \<Rightarrow> (unit, 'a s3_io_scheme) result" where
  "checkObjectExists s =
     (case send HeadObjectRequest s of
        (Success _, s') \<Rightarrow> Returned () s'
      | (Failure err, s') \<Rightarrow> Thrown (S3Exception (GetErrorType err)) s')"

text \<open>The list of completed parts both \<^verbatim>\<open>completeMultipartUpload\<close> functions build:
  \<^verbatim>\<open>for (size_t i = 0; i < tags.size(); ++i) AddParts(part.WithETag(tags[i]).WithPartNumber(static_cast<int>(i + 1)))\<close>.\<close>

definition CompletedMultipartUpload :: "string list \<Rightarrow> (string \<times> int) list" where
  "CompletedMultipartUpload tags =
     map (\<lambda>i. (tags ! i, static_cast_int (of_nat i + 1))) [0..<length tags]"


section \<open>\<^verbatim>\<open>copyS3File.cpp\<close>: class \<^verbatim>\<open>UploadHelper\<close> and its two subclasses\<close>

datatype helper_class = CopyDataToFileHelper | CopyFileHelper

record upload_helper = s3_io +
  dynamic_type :: helper_class
  offset :: size_t
  size' :: size_t
  normal_part_size :: size_t
  multipart_upload_aborted :: bool
  bg_tasks :: "UploadPartTask list"

definition UploadHelper_createMultipartUpload :: "upload_helper \<Rightarrow> (unit, upload_helper) result" where
  "UploadHelper_createMultipartUpload h =
     (case send CreateMultipartUploadRequest h of
        (Success upload_id, h') \<Rightarrow> Returned () (h'\<lparr>multipart_upload_id := upload_id\<rparr>)
      | (Failure err, h') \<Rightarrow> Thrown (S3Exception (GetErrorType err)) h')"

lemma unat_plus1: "(r::'a::len word) < m \<Longrightarrow> unat (r + 1) = unat r + 1"
proof -
  assume "r < m"
  then have "unat r < unat m" by (simp add: word_less_nat_alt)
  moreover have "unat m < 2 ^ LENGTH('a)" by (rule unsigned_less)
  ultimately have "unat r + 1 < 2 ^ LENGTH('a)" by linarith
  then have "unat r + unat (1::'a word) < 2 ^ LENGTH('a)" by simp
  then have "unat (r + 1) = unat r + unat (1::'a word)" by (simp only: unat_add_lem)
  then show ?thesis by simp
qed

text \<open>The retry loop of \<^verbatim>\<open>completeMultipartUpload\<close>:
  \<^verbatim>\<open>for (size_t retries = 1;; ++retries)\<close>.\<close>

function UploadHelper_completeMultipartUpload_loop ::
    "request \<Rightarrow> size_t \<Rightarrow> size_t \<Rightarrow> upload_helper \<Rightarrow> (unit, upload_helper) result" where
  "UploadHelper_completeMultipartUpload_loop request max_retries retries h =
     (case send request h of
        (Success _, h') \<Rightarrow> Returned () h'
      | (Failure err, h') \<Rightarrow>
          if GetErrorType err = NO_SUCH_KEY \<and> retries < max_retries
          then UploadHelper_completeMultipartUpload_loop request max_retries (retries + 1) h'
          else Thrown (S3Exception (GetErrorType err)) h')"
  by pat_completeness auto
termination
  by (relation "measure (\<lambda>(request, max_retries, retries, h). unat max_retries - unat retries)")
     (auto simp: unat_plus1 word_less_nat_alt)

declare UploadHelper_completeMultipartUpload_loop.simps [simp del]

definition UploadHelper_completeMultipartUpload :: "upload_helper \<Rightarrow> (unit, upload_helper) result" where
  "UploadHelper_completeMultipartUpload h =
     (if multipart_upload_aborted h then Returned () h
      else if part_tags h = [] then Thrown (Exception S3_ERROR) h
      else
        let request = CompleteMultipartUploadRequest (multipart_upload_id h)
                        (CompletedMultipartUpload (part_tags h));
            max_retries = max (max_unexpected_write_error_retries h) 1
        in UploadHelper_completeMultipartUpload_loop request max_retries 1 h)"

definition UploadHelper_abortMultipartUpload :: "upload_helper \<Rightarrow> upload_helper" where
  "UploadHelper_abortMultipartUpload h =
     (case send (AbortMultipartUploadRequest (multipart_upload_id h)) h of
        (_, h') \<Rightarrow> h'\<lparr>multipart_upload_aborted := True\<rparr>)"

definition UploadHelper_checkObjectAfterUpload :: "upload_helper \<Rightarrow> (unit, upload_helper) result" where
  "UploadHelper_checkObjectAfterUpload h = checkObjectExists h"

text \<open>\<^verbatim>\<open>calculatePartSize\<close>.  The local variables \<open>part_size\<close> and \<open>num_parts\<close> are
  threaded through the two conditional blocks as a pair.  In the first block the sum
  \<open>total_size + max_part_number - 1\<close> can wrap around; \<open>part_size\<close> is then 0 and the
  division that follows divides by zero.  In the second block the divisor is
  \<open>max_upload_part_size\<close>, which is not 0 once the checks at the top have passed.\<close>

definition ceil_div :: "size_t \<Rightarrow> size_t \<Rightarrow> size_t" where
  "ceil_div total_size part_size = (total_size + part_size - 1) div part_size"

definition UploadHelper_calculatePartSize :: "size_t \<Rightarrow> upload_helper \<Rightarrow> (unit, upload_helper) result" where
  "UploadHelper_calculatePartSize total_size h =
     (if total_size = 0 then Thrown (Exception LOGICAL_ERROR) h
      else if max_part_number (settings h) = 0 then Thrown (Exception INVALID_CONFIG_PARAMETER) h
      else if min_upload_part_size (settings h) = 0 then Thrown (Exception INVALID_CONFIG_PARAMETER) h
      else if max_upload_part_size (settings h) < min_upload_part_size (settings h)
        then Thrown (Exception INVALID_CONFIG_PARAMETER) h
      else
        let part_size = min_upload_part_size (settings h);
            num_parts = ceil_div total_size part_size
        in
          case (if num_parts > max_part_number (settings h)
                then (let part_size = ceil_div total_size (max_part_number (settings h))
                      in if part_size = 0 then None
                         else Some (part_size, ceil_div total_size part_size))
                else Some (part_size, num_parts)) of
            None \<Rightarrow> Thrown DivisionByZero h
          | Some (part_size, num_parts) \<Rightarrow>
              (case (if part_size > max_upload_part_size (settings h)
                     then (max_upload_part_size (settings h),
                           ceil_div total_size (max_upload_part_size (settings h)))
                     else (part_size, num_parts)) of
                 (part_size, num_parts) \<Rightarrow>
                   if num_parts < 1 \<or> num_parts > max_part_number (settings h)
                      \<or> part_size < min_upload_part_size (settings h)
                      \<or> part_size > max_upload_part_size (settings h)
                   then Thrown (Exception INVALID_CONFIG_PARAMETER) h
                   else Returned () (h\<lparr>normal_part_size := part_size\<rparr>)))"

text \<open>The two overrides of \<^verbatim>\<open>fillUploadPartRequest\<close> and of \<^verbatim>\<open>processUploadPartRequest\<close>,
  selected by the class of the object.\<close>

definition UploadHelper_fillUploadPartRequest :: "size_t \<Rightarrow> size_t \<Rightarrow> size_t \<Rightarrow> upload_helper \<Rightarrow> request" where
  "UploadHelper_fillUploadPartRequest part_number part_offset part_size h =
     (case dynamic_type h of
        CopyDataToFileHelper \<Rightarrow>
          UploadPartRequest (multipart_upload_id h) (static_cast_int part_number)
            (LimitSeekableReadBuffer part_offset part_size)
      | CopyFileHelper \<Rightarrow>
          UploadPartCopyRequest (multipart_upload_id h) (static_cast_int part_number)
            part_offset (part_offset + part_size - 1))"

definition UploadHelper_processUploadPartRequest :: "request \<Rightarrow> upload_helper \<Rightarrow> (string, upload_helper) result" where
  "UploadHelper_processUploadPartRequest request h =
     (case send request h of
        (Success etag, h') \<Rightarrow> Returned etag h'
      | (Failure err, h') \<Rightarrow>
          Thrown (case dynamic_type h of
                    CopyDataToFileHelper \<Rightarrow> S3Exception (GetErrorType err)
                  | CopyFileHelper \<Rightarrow> Exception S3_ERROR)
            (UploadHelper_abortMultipartUpload h'))"

text \<open>\<^verbatim>\<open>processUploadTask\<close>, run in one piece (the call of \<^verbatim>\<open>uploadPart\<close> without a pool).
  The request of a task is always set before the task is processed.\<close>

definition UploadHelper_processUploadTask :: "UploadPartTask \<Rightarrow> upload_helper
    \<Rightarrow> (UploadPartTask, upload_helper) result" where
  "UploadHelper_processUploadTask task h =
     (if multipart_upload_aborted h then Returned task h
      else case req task of
        None \<Rightarrow> Returned task h
      | Some request \<Rightarrow>
          andThen (UploadHelper_processUploadPartRequest request h)
            (\<lambda>tag h'. Returned (task\<lparr>tag := tag\<rparr>) h'))"

text \<open>The closure that \<^verbatim>\<open>uploadPart\<close> hands to the pool, one observable step at a time.
  The first step of a task is the test of \<^verbatim>\<open>multipart_upload_aborted\<close> at the top of
  \<^verbatim>\<open>processUploadTask\<close>.  The second is the request of \<^verbatim>\<open>processUploadPartRequest\<close>: when the
  store accepts the part, the tag and \<^verbatim>\<open>task_finish_notify\<close> follow at once; when it refuses,
  the error is kept in the task.  The third step, of a task whose request was refused, is the
  rest of \<^verbatim>\<open>processUploadPartRequest\<close> and of the closure: \<^verbatim>\<open>abortMultipartUpload\<close>, the
  exception caught into the task, \<^verbatim>\<open>task_finish_notify\<close>.  No lock is held between the
  request and the abort, so steps of different tasks interleave there too, as the pool
  decides.\<close>

definition UploadHelper_task_finish_notify :: "nat \<Rightarrow> upload_helper \<Rightarrow> upload_helper" where
  "UploadHelper_task_finish_notify i h =
     h\<lparr>bg_tasks := update_task i (\<lambda>t. t\<lparr>is_finished := True\<rparr>) (bg_tasks h),
       num_finished_bg_tasks := num_finished_bg_tasks h + 1\<rparr>"

definition UploadHelper_run_task :: "nat \<Rightarrow> upload_helper \<Rightarrow> upload_helper" where
  "UploadHelper_run_task i h =
     (case find (\<lambda>t. task_id t = i) (bg_tasks h) of
        None \<Rightarrow> h
      | Some task \<Rightarrow>
          if is_finished task then h
          else if \<not> started task then
            (if multipart_upload_aborted h then UploadHelper_task_finish_notify i h
             else h\<lparr>bg_tasks := update_task i (\<lambda>t. t\<lparr>started := True\<rparr>) (bg_tasks h)\<rparr>)
          else
            (case req task of
               None \<Rightarrow> UploadHelper_task_finish_notify i h
             | Some request \<Rightarrow>
                 (case failed task of
                    None \<Rightarrow>
                      (case send request h of
                         (Success etag, h') \<Rightarrow>
                           UploadHelper_task_finish_notify i
                             (h'\<lparr>bg_tasks := update_task i (\<lambda>t. t\<lparr>tag := etag\<rparr>) (bg_tasks h')\<rparr>)
                       | (Failure err, h') \<Rightarrow>
                           h'\<lparr>bg_tasks := update_task i (\<lambda>t. t\<lparr>failed := Some err\<rparr>) (bg_tasks h')\<rparr>)
                  | Some err \<Rightarrow>
                      (let h' = UploadHelper_abortMultipartUpload h;
                           e = (case dynamic_type h of
                                  CopyDataToFileHelper \<Rightarrow> S3Exception (GetErrorType err)
                                | CopyFileHelper \<Rightarrow> Exception S3_ERROR)
                       in UploadHelper_task_finish_notify i
                            (h'\<lparr>bg_tasks := update_task i (\<lambda>t. t\<lparr>exception := Some e\<rparr>) (bg_tasks h')\<rparr>)))))"

text \<open>\<^verbatim>\<open>bg_tasks_condvar.wait(lock, num_added_bg_tasks == num_finished_bg_tasks)\<close>: the
  caller blocks, the pool has one more opportunity, and whatever it has left undone then
  is completed, task by task in the order of the list, before the wait returns.\<close>

definition UploadHelper_wait_finished :: "upload_helper \<Rightarrow> upload_helper" where
  "UploadHelper_wait_finished h =
     (let h' = pool_runs UploadHelper_run_task h
      in fold (\<lambda>t s. UploadHelper_run_task (task_id t)
                      (UploadHelper_run_task (task_id t) (UploadHelper_run_task (task_id t) s)))
           (bg_tasks h') h')"

definition UploadHelper_uploadPart :: "size_t \<Rightarrow> size_t \<Rightarrow> size_t \<Rightarrow> upload_helper
    \<Rightarrow> (unit, upload_helper) result" where
  "UploadHelper_uploadPart part_number part_offset part_size h =
     (if part_size = 0 then Returned () h
      else if schedule h \<noteq> None then
        let i = nat (num_added_bg_tasks h);
            h1 = h\<lparr>bg_tasks := bg_tasks h @ [new_task i],
                   num_added_bg_tasks := num_added_bg_tasks h + 1\<rparr>;
            request = UploadHelper_fillUploadPartRequest part_number part_offset part_size h1;
            h2 = h1\<lparr>bg_tasks := update_task i (\<lambda>t. t\<lparr>req := Some request\<rparr>) (bg_tasks h1)\<rparr>
        in Returned () (pool_runs UploadHelper_run_task h2)
      else
        let task = (new_task 0)\<lparr>req :=
              Some (UploadHelper_fillUploadPartRequest part_number part_offset part_size h)\<rparr>
        in andThen (UploadHelper_processUploadTask task h)
             (\<lambda>task' h'. Returned () (h'\<lparr>part_tags := part_tags h' @ [tag task']\<rparr>)))"

text \<open>The loop over the tasks in \<^verbatim>\<open>waitForAllBackGroundTasks\<close>.\<close>

fun UploadHelper_collect_tasks :: "UploadPartTask list \<Rightarrow> upload_helper \<Rightarrow> (unit, upload_helper) result" where
  "UploadHelper_collect_tasks [] h = Returned () h"
| "UploadHelper_collect_tasks (task # tasks) h =
     (case exception task of
        Some e \<Rightarrow> Thrown e (UploadHelper_abortMultipartUpload h)
      | None \<Rightarrow> UploadHelper_collect_tasks tasks (h\<lparr>part_tags := part_tags h @ [tag task]\<rparr>))"

definition UploadHelper_waitForAllBackGroundTasks :: "upload_helper \<Rightarrow> (unit, upload_helper) result" where
  "UploadHelper_waitForAllBackGroundTasks h =
     (if schedule h = None then Returned () h
      else let h' = UploadHelper_wait_finished h in UploadHelper_collect_tasks (bg_tasks h') h')"

text \<open>The loop of \<^verbatim>\<open>performMultipartUpload\<close>:
  \<^verbatim>\<open>for (size_t part_number = 1; position < end_position; ++part_number)\<close>.  Nothing in the
  loop itself makes it end (with \<open>normal_part_size = 0\<close> the position never moves).\<close>

partial_function (option) UploadHelper_performMultipartUpload_loop ::
    "size_t \<Rightarrow> size_t \<Rightarrow> size_t \<Rightarrow> upload_helper \<Rightarrow> (unit, upload_helper) result option" where
  "UploadHelper_performMultipartUpload_loop part_number position end_position h =
     (if position < end_position then
        (if multipart_upload_aborted h then Some (Returned () h)
         else
           let next_position = min (position + normal_part_size h) end_position;
               part_size = next_position - position
           in case UploadHelper_uploadPart part_number position part_size h of
                Thrown e h' \<Rightarrow> Some (Thrown e h')
              | Returned _ h' \<Rightarrow>
                  UploadHelper_performMultipartUpload_loop (part_number + 1) next_position
                    end_position h')
      else Some (Returned () h))"

declare UploadHelper_performMultipartUpload_loop.simps [code]

definition UploadHelper_performMultipartUpload :: "size_t \<Rightarrow> size_t \<Rightarrow> upload_helper
    \<Rightarrow> (unit, upload_helper) result option" where
  "UploadHelper_performMultipartUpload start_offset size0 h =
     andThenOpt (Some (UploadHelper_calculatePartSize size0 h)) (\<lambda>_ h.
     andThenOpt (Some (UploadHelper_createMultipartUpload h)) (\<lambda>_ h.
     andThenOpt (UploadHelper_performMultipartUpload_loop 1 start_offset (start_offset + size0) h) (\<lambda>_ h.
     andThenOpt (Some (UploadHelper_waitForAllBackGroundTasks h)) (\<lambda>_ h.
     Some (UploadHelper_completeMultipartUpload h)))))"

subsection \<open>\<^verbatim>\<open>CopyDataToFileHelper\<close>\<close>

definition CopyDataToFileHelper_performMultipartUpload :: "upload_helper \<Rightarrow> (unit, upload_helper) result option" where
  "CopyDataToFileHelper_performMultipartUpload h = UploadHelper_performMultipartUpload (offset h) (size' h) h"

definition CopyDataToFileHelper_fillPutRequest :: "upload_helper \<Rightarrow> request" where
  "CopyDataToFileHelper_fillPutRequest h = PutObjectRequest (LimitSeekableReadBuffer (offset h) (size' h))"

function CopyDataToFileHelper_processPutRequest_loop ::
    "request \<Rightarrow> size_t \<Rightarrow> size_t \<Rightarrow> upload_helper \<Rightarrow> (unit, upload_helper) result option" where
  "CopyDataToFileHelper_processPutRequest_loop request max_retries retries h =
     (case send request h of
        (Success _, h') \<Rightarrow> Some (Returned () h')
      | (Failure err, h') \<Rightarrow>
          if GetExceptionName err = ''EntityTooLarge'' \<or> GetExceptionName err = ''InvalidRequest''
          then CopyDataToFileHelper_performMultipartUpload h'
          else if GetErrorType err = NO_SUCH_KEY \<and> retries < max_retries
          then CopyDataToFileHelper_processPutRequest_loop request max_retries (retries + 1) h'
          else Some (Thrown (S3Exception (GetErrorType err)) h'))"
  by pat_completeness auto
termination
  by (relation "measure (\<lambda>(request, max_retries, retries, h). unat max_retries - unat retries)")
     (auto simp: unat_plus1 word_less_nat_alt)

declare CopyDataToFileHelper_processPutRequest_loop.simps [simp del]

definition CopyDataToFileHelper_processPutRequest :: "request \<Rightarrow> upload_helper
    \<Rightarrow> (unit, upload_helper) result option" where
  "CopyDataToFileHelper_processPutRequest request h =
     (let max_retries = max (max_unexpected_write_error_retries h) 1
      in CopyDataToFileHelper_processPutRequest_loop request max_retries 1 h)"

definition CopyDataToFileHelper_performSinglepartUpload :: "upload_helper \<Rightarrow> (unit, upload_helper) result option" where
  "CopyDataToFileHelper_performSinglepartUpload h =
     CopyDataToFileHelper_processPutRequest (CopyDataToFileHelper_fillPutRequest h) h"

definition CopyDataToFileHelper_performCopy :: "upload_helper \<Rightarrow> (unit, upload_helper) result option" where
  "CopyDataToFileHelper_performCopy h =
     andThenOpt
       (if size' h \<le> max_single_part_upload_size (settings h)
        then CopyDataToFileHelper_performSinglepartUpload h
        else CopyDataToFileHelper_performMultipartUpload h)
       (\<lambda>_ h. if check_objects_after_upload h then Some (UploadHelper_checkObjectAfterUpload h)
               else Some (Returned () h))"

subsection \<open>\<^verbatim>\<open>CopyFileHelper\<close>\<close>

definition CopyFileHelper_performMultipartUploadCopy :: "upload_helper \<Rightarrow> (unit, upload_helper) result option" where
  "CopyFileHelper_performMultipartUploadCopy h = UploadHelper_performMultipartUpload (offset h) (size' h) h"

function CopyFileHelper_processCopyRequest_loop ::
    "request \<Rightarrow> size_t \<Rightarrow> size_t \<Rightarrow> upload_helper \<Rightarrow> (unit, upload_helper) result option" where
  "CopyFileHelper_processCopyRequest_loop request max_retries retries h =
     (case send request h of
        (Success _, h') \<Rightarrow> Some (Returned () h')
      | (Failure err, h') \<Rightarrow>
          if GetExceptionName err = ''EntityTooLarge'' \<or> GetExceptionName err = ''InvalidRequest''
          then CopyFileHelper_performMultipartUploadCopy h'
          else if GetErrorType err = NO_SUCH_KEY \<and> retries < max_retries
          then CopyFileHelper_processCopyRequest_loop request max_retries (retries + 1) h'
          else Some (Thrown (S3Exception (GetErrorType err)) h'))"
  by pat_completeness auto
termination
  by (relation "measure (\<lambda>(request, max_retries, retries, h). unat max_retries - unat retries)")
     (auto simp: unat_plus1 word_less_nat_alt)

declare CopyFileHelper_processCopyRequest_loop.simps [simp del]

definition CopyFileHelper_processCopyRequest :: "request \<Rightarrow> upload_helper
    \<Rightarrow> (unit, upload_helper) result option" where
  "CopyFileHelper_processCopyRequest request h =
     (let max_retries = max (max_unexpected_write_error_retries h) 1
      in CopyFileHelper_processCopyRequest_loop request max_retries 1 h)"

definition CopyFileHelper_performSingleOperationCopy :: "upload_helper \<Rightarrow> (unit, upload_helper) result option" where
  "CopyFileHelper_performSingleOperationCopy h = CopyFileHelper_processCopyRequest CopyObjectRequest h"

definition CopyFileHelper_performCopy :: "upload_helper \<Rightarrow> (unit, upload_helper) result option" where
  "CopyFileHelper_performCopy h =
     andThenOpt
       (if size' h \<le> max_single_operation_copy_size (settings h)
        then CopyFileHelper_performSingleOperationCopy h
        else CopyFileHelper_performMultipartUploadCopy h)
       (\<lambda>_ h. if check_objects_after_upload h then Some (UploadHelper_checkObjectAfterUpload h)
               else Some (Returned () h))"

text \<open>The constructors, called by \<^verbatim>\<open>copyDataToS3File\<close> and \<^verbatim>\<open>copyS3File\<close>; \<open>normal_part_size\<close>
  has no initialiser in the source and is written before it is read.\<close>

definition UploadHelper_new :: "helper_class \<Rightarrow> s3_client \<Rightarrow> size_t \<Rightarrow> size_t \<Rightarrow> PartUploadSettings \<Rightarrow> bool
    \<Rightarrow> size_t \<Rightarrow> executor option \<Rightarrow> upload_helper" where
  "UploadHelper_new cls client offset0 size0 settings0 check0 retries0 schedule0 =
     \<lparr>client_ptr = client, calls = [], schedule = schedule0, ticks = 0, settings = settings0,
      check_objects_after_upload = check0, max_unexpected_write_error_retries = retries0,
      multipart_upload_id = [], part_tags = [], num_added_bg_tasks = 0,
      num_finished_bg_tasks = 0, dynamic_type = cls, offset = offset0, size' = size0,
      normal_part_size = 0, multipart_upload_aborted = False, bg_tasks = []\<rparr>"

definition copyDataToS3File :: "s3_client \<Rightarrow> size_t \<Rightarrow> size_t \<Rightarrow> PartUploadSettings \<Rightarrow> bool \<Rightarrow> size_t
    \<Rightarrow> executor option \<Rightarrow> (unit, upload_helper) result option" where
  "copyDataToS3File client offset0 size0 settings0 check0 retries0 schedule0 =
     CopyDataToFileHelper_performCopy
       (UploadHelper_new CopyDataToFileHelper client offset0 size0 settings0 check0 retries0 schedule0)"

definition copyS3File :: "s3_client \<Rightarrow> size_t \<Rightarrow> size_t \<Rightarrow> PartUploadSettings \<Rightarrow> bool \<Rightarrow> size_t
    \<Rightarrow> executor option \<Rightarrow> (unit, upload_helper) result option" where
  "copyS3File client src_offset src_size settings0 check0 retries0 schedule0 =
     CopyFileHelper_performCopy
       (UploadHelper_new CopyFileHelper client src_offset src_size settings0 check0 retries0 schedule0)"


section \<open>\<^verbatim>\<open>WriteBufferFromS3.cpp\<close>: class \<^verbatim>\<open>WriteBufferFromS3\<close>\<close>

text \<open>\<open>temporary_buffer\<close> is the value of \<^verbatim>\<open>temporary_buffer->tellp()\<close>: the number of bytes
  written to the stream, or \<open>-1\<close> for a stream in a bad state.  \<open>warnings\<close> collects the
  messages of \<^verbatim>\<open>LOG_WARNING\<close>.\<close>

record write_buffer = s3_io +
  upload_part_size :: size_t
  temporary_buffer :: int
  last_part_size :: size_t
  part_number :: size_t
  upload_object_tasks :: "UploadPartTask list"
  put_object_task :: "PutObjectTask option"
  is_prefinalized :: bool
  warnings :: "string list"

definition S3_WARN_MAX_PARTS :: nat where
  "S3_WARN_MAX_PARTS = 10000"

definition WriteBufferFromS3_allocateBuffer :: "write_buffer \<Rightarrow> write_buffer" where
  "WriteBufferFromS3_allocateBuffer w = w\<lparr>temporary_buffer := 0, last_part_size := 0\<rparr>"

definition WriteBufferFromS3_createMultipartUpload :: "write_buffer \<Rightarrow> (unit, write_buffer) result" where
  "WriteBufferFromS3_createMultipartUpload w =
     (case send CreateMultipartUploadRequest w of
        (Success upload_id, w') \<Rightarrow> Returned () (w'\<lparr>multipart_upload_id := upload_id\<rparr>)
      | (Failure err, w') \<Rightarrow> Thrown (S3Exception (GetErrorType err)) w')"

text \<open>\<^verbatim>\<open>fillUploadRequest\<close>.  \<^verbatim>\<open>part_number % upload_part_size_multiply_parts_count_threshold\<close>
  with a threshold of 0 divides by zero.\<close>

definition WriteBufferFromS3_fillUploadRequest :: "write_buffer \<Rightarrow> (request, write_buffer) result" where
  "WriteBufferFromS3_fillUploadRequest w0 =
     (let w = w0\<lparr>part_number := part_number w0 + 1\<rparr> in
      if multipart_upload_id w \<noteq> [] \<and> part_number w > max_part_number (settings w)
      then Thrown (Exception INVALID_CONFIG_PARAMETER) w
      else
        let request = UploadPartRequest (multipart_upload_id w) (static_cast_int (part_number w))
                        (StringStream (temporary_buffer w))
        in if multipart_upload_id w \<noteq> [] then
             (if upload_part_size_multiply_parts_count_threshold (settings w) = 0
              then Thrown DivisionByZero w
              else if part_number w mod upload_part_size_multiply_parts_count_threshold (settings w) = 0
              then Returned request
                     (w\<lparr>upload_part_size :=
                          min (upload_part_size w * upload_part_size_multiply_factor (settings w))
                              (max_upload_part_size (settings w))\<rparr>)
              else Returned request w)
           else Returned request w)"

definition WriteBufferFromS3_processUploadRequest :: "UploadPartTask \<Rightarrow> write_buffer
    \<Rightarrow> (UploadPartTask, write_buffer) result" where
  "WriteBufferFromS3_processUploadRequest task w =
     (case req task of
        None \<Rightarrow> Returned task w
      | Some request \<Rightarrow>
          (case send request w of
             (Success etag, w') \<Rightarrow> Returned (task\<lparr>tag := etag\<rparr>) w'
           | (Failure err, w') \<Rightarrow> Thrown (S3Exception (GetErrorType err)) w'))"

text \<open>The retry loop of \<^verbatim>\<open>completeMultipartUpload\<close>:
  \<^verbatim>\<open>for (size_t i = 0; i < max_retry; ++i)\<close>.\<close>

function WriteBufferFromS3_completeMultipartUpload_loop ::
    "request \<Rightarrow> size_t \<Rightarrow> size_t \<Rightarrow> write_buffer \<Rightarrow> (unit, write_buffer) result" where
  "WriteBufferFromS3_completeMultipartUpload_loop request max_retry i w =
     (if i < max_retry then
        (case send request w of
           (Success _, w') \<Rightarrow> Returned () w'
         | (Failure err, w') \<Rightarrow>
             if GetErrorType err = NO_SUCH_KEY
             then WriteBufferFromS3_completeMultipartUpload_loop request max_retry (i + 1) w'
             else Thrown (S3Exception (GetErrorType err)) w')
      else Returned () w)"
  by pat_completeness auto
termination
  by (relation "measure (\<lambda>(request, max_retry, i, w). unat max_retry - unat i)")
     (auto simp: unat_plus1 word_less_nat_alt)

declare WriteBufferFromS3_completeMultipartUpload_loop.simps [simp del]

definition WriteBufferFromS3_completeMultipartUpload :: "write_buffer \<Rightarrow> (unit, write_buffer) result" where
  "WriteBufferFromS3_completeMultipartUpload w =
     (if part_tags w = [] then Thrown (Exception S3_ERROR) w
      else
        let request = CompleteMultipartUploadRequest (multipart_upload_id w)
                        (CompletedMultipartUpload (part_tags w));
            max_retry = max (max_unexpected_write_error_retries w) 1
        in WriteBufferFromS3_completeMultipartUpload_loop request max_retry 0 w)"

definition WriteBufferFromS3_fillPutRequest :: "write_buffer \<Rightarrow> request" where
  "WriteBufferFromS3_fillPutRequest w = PutObjectRequest (StringStream (temporary_buffer w))"

text \<open>The retry loop of \<^verbatim>\<open>processPutRequest\<close>: \<^verbatim>\<open>for (size_t i = 0; i < max_retry; ++i)\<close>.\<close>

function WriteBufferFromS3_processPutRequest_loop ::
    "request \<Rightarrow> size_t \<Rightarrow> size_t \<Rightarrow> write_buffer \<Rightarrow> (unit, write_buffer) result" where
  "WriteBufferFromS3_processPutRequest_loop request max_retry i w =
     (if i < max_retry then
        (case send request w of
           (Success _, w') \<Rightarrow> Returned () w'
         | (Failure err, w') \<Rightarrow>
             if GetErrorType err = NO_SUCH_KEY
             then WriteBufferFromS3_processPutRequest_loop request max_retry (i + 1) w'
             else Thrown (S3Exception (GetErrorType err)) w')
      else Returned () w)"
  by pat_completeness auto
termination
  by (relation "measure (\<lambda>(request, max_retry, i, w). unat max_retry - unat i)")
     (auto simp: unat_plus1 word_less_nat_alt)

declare WriteBufferFromS3_processPutRequest_loop.simps [simp del]

definition WriteBufferFromS3_processPutRequest :: "PutObjectTask \<Rightarrow> write_buffer \<Rightarrow> (unit, write_buffer) result" where
  "WriteBufferFromS3_processPutRequest task w =
     (case req task of
        None \<Rightarrow> Returned () w
      | Some request \<Rightarrow>
          WriteBufferFromS3_processPutRequest_loop request
            (max (max_unexpected_write_error_retries w) 1) 0 w)"

text \<open>The closures handed to the pool.  Step \<open>0\<close> names the closure of \<^verbatim>\<open>makeSinglepartUpload\<close>,
  a step \<open>i > 0\<close> the closure of the upload task \<open>i\<close> made by \<^verbatim>\<open>writePart\<close>.  Each runs in
  one piece: the request, the caught exception, the notification.\<close>

definition WriteBufferFromS3_task_finish_notify :: "nat \<Rightarrow> write_buffer \<Rightarrow> write_buffer" where
  "WriteBufferFromS3_task_finish_notify i w =
     w\<lparr>upload_object_tasks := update_task i (\<lambda>t. t\<lparr>is_finished := True\<rparr>) (upload_object_tasks w),
       num_finished_bg_tasks := num_finished_bg_tasks w + 1\<rparr>"

definition WriteBufferFromS3_run_task :: "nat \<Rightarrow> write_buffer \<Rightarrow> write_buffer" where
  "WriteBufferFromS3_run_task i w =
     (if i = 0 then
        (case put_object_task w of
           None \<Rightarrow> w
         | Some task \<Rightarrow>
             if is_finished task then w
             else
               (case WriteBufferFromS3_processPutRequest task w of
                  Returned _ w' \<Rightarrow> w'\<lparr>put_object_task := Some (task\<lparr>is_finished := True\<rparr>)\<rparr>
                | Thrown e w' \<Rightarrow>
                    w'\<lparr>put_object_task := Some (task\<lparr>exception := Some e, is_finished := True\<rparr>)\<rparr>))
      else
        (case find (\<lambda>t. task_id t = i) (upload_object_tasks w) of
           None \<Rightarrow> w
         | Some task \<Rightarrow>
             if is_finished task then w
             else
               (case WriteBufferFromS3_processUploadRequest task w of
                  Returned task' w' \<Rightarrow>
                    WriteBufferFromS3_task_finish_notify i
                      (w'\<lparr>upload_object_tasks :=
                           update_task i (\<lambda>t. t\<lparr>tag := tag task'\<rparr>) (upload_object_tasks w')\<rparr>)
                | Thrown e w' \<Rightarrow>
                    WriteBufferFromS3_task_finish_notify i
                      (w'\<lparr>upload_object_tasks :=
                           update_task i (\<lambda>t. t\<lparr>exception := Some e\<rparr>) (upload_object_tasks w')\<rparr>))))"

definition WriteBufferFromS3_writePart :: "write_buffer \<Rightarrow> (unit, write_buffer) result" where
  "WriteBufferFromS3_writePart w0 =
     (let size0 = temporary_buffer w0 in
      if size0 < 0 then
        Returned () (w0\<lparr>warnings := warnings w0 @ [''Skipping part upload. Buffer is in bad state'']\<rparr>)
      else if size0 = 0 then Returned () w0
      else
        let w = (if length (part_tags w0) = S3_WARN_MAX_PARTS
                 then w0\<lparr>warnings := warnings w0 @ [''Maximum part number in S3 protocol has reached'']\<rparr>
                 else w0)
        in if schedule w \<noteq> None then
             let w1 = w\<lparr>num_added_bg_tasks := num_added_bg_tasks w + 1\<rparr>;
                 i = nat (num_added_bg_tasks w1);
                 w2 = w1\<lparr>upload_object_tasks := upload_object_tasks w1 @ [new_task i]\<rparr>
             in (case WriteBufferFromS3_fillUploadRequest w2 of
                   Returned request w3 \<Rightarrow>
                     Returned ()
                       (pool_runs WriteBufferFromS3_run_task
                          (w3\<lparr>upload_object_tasks :=
                               update_task i (\<lambda>t. t\<lparr>req := Some request\<rparr>) (upload_object_tasks w3)\<rparr>))
                 | Thrown e w3 \<Rightarrow> Thrown e (WriteBufferFromS3_task_finish_notify i w3))
           else
             andThen (WriteBufferFromS3_fillUploadRequest w) (\<lambda>request w.
             andThen (WriteBufferFromS3_processUploadRequest ((new_task 0)\<lparr>req := Some request\<rparr>) w)
               (\<lambda>task w. Returned () (w\<lparr>part_tags := part_tags w @ [tag task]\<rparr>))))"

definition WriteBufferFromS3_makeSinglepartUpload :: "write_buffer \<Rightarrow> (unit, write_buffer) result" where
  "WriteBufferFromS3_makeSinglepartUpload w =
     (let size0 = temporary_buffer w;
          task = \<lparr>req = Some (WriteBufferFromS3_fillPutRequest w), is_finished = False,
                  exception = None\<rparr>
      in
       if size0 < 0 then
         Returned () (w\<lparr>warnings := warnings w @ [''Skipping single part upload. Buffer is in bad state'']\<rparr>)
       else if schedule w \<noteq> None then
         Returned () (pool_runs WriteBufferFromS3_run_task (w\<lparr>put_object_task := Some task\<rparr>))
       else WriteBufferFromS3_processPutRequest task w)"

text \<open>The two condition-variable waits of \<^verbatim>\<open>waitForAllBackGroundTasksUnlocked\<close>: the pool has
  one more opportunity, and what it has left undone is completed before the wait returns.\<close>

definition WriteBufferFromS3_wait_finished :: "write_buffer \<Rightarrow> write_buffer" where
  "WriteBufferFromS3_wait_finished w =
     (let w' = pool_runs WriteBufferFromS3_run_task w
      in fold (\<lambda>t s. WriteBufferFromS3_run_task (task_id t) s) (upload_object_tasks w') w')"

fun WriteBufferFromS3_collect_tasks :: "UploadPartTask list \<Rightarrow> write_buffer \<Rightarrow> (unit, write_buffer) result" where
  "WriteBufferFromS3_collect_tasks [] w = Returned () (w\<lparr>upload_object_tasks := []\<rparr>)"
| "WriteBufferFromS3_collect_tasks (task # tasks) w =
     (case exception task of
        Some e \<Rightarrow> Thrown e (w\<lparr>upload_object_tasks := task # tasks\<rparr>)
      | None \<Rightarrow> WriteBufferFromS3_collect_tasks tasks (w\<lparr>part_tags := part_tags w @ [tag task]\<rparr>))"

definition WriteBufferFromS3_waitForAllBackGroundTasksUnlocked :: "write_buffer \<Rightarrow> (unit, write_buffer) result" where
  "WriteBufferFromS3_waitForAllBackGroundTasksUnlocked w =
     (if schedule w \<noteq> None then
        let w1 = WriteBufferFromS3_wait_finished w in
        andThen (WriteBufferFromS3_collect_tasks (upload_object_tasks w1) w1) (\<lambda>_ w2.
          if put_object_task w2 \<noteq> None then
            let w3 = WriteBufferFromS3_run_task 0 w2
            in (case put_object_task w3 of
                  None \<Rightarrow> Returned () w3
                | Some task \<Rightarrow>
                    (case exception task of Some e \<Rightarrow> Thrown e w3 | None \<Rightarrow> Returned () w3))
          else Returned () w2)
      else Returned () w)"

definition WriteBufferFromS3_waitForAllBackGroundTasks :: "write_buffer \<Rightarrow> (unit, write_buffer) result" where
  "WriteBufferFromS3_waitForAllBackGroundTasks w =
     (if schedule w \<noteq> None then WriteBufferFromS3_waitForAllBackGroundTasksUnlocked w
      else Returned () w)"

text \<open>The loop of \<^verbatim>\<open>waitForReadyBackGroundTasks\<close>, over the tasks at the head of the list that
  have finished.\<close>

fun WriteBufferFromS3_ready_tasks :: "UploadPartTask list \<Rightarrow> write_buffer \<Rightarrow> (unit, write_buffer) result" where
  "WriteBufferFromS3_ready_tasks [] w = Returned () (w\<lparr>upload_object_tasks := []\<rparr>)"
| "WriteBufferFromS3_ready_tasks (task # tasks) w =
     (if is_finished task then
        (case exception task of
           Some e \<Rightarrow>
             andThen (WriteBufferFromS3_waitForAllBackGroundTasksUnlocked
                        (w\<lparr>upload_object_tasks := tasks\<rparr>))
               (\<lambda>_ w'. Thrown e w')
         | None \<Rightarrow> WriteBufferFromS3_ready_tasks tasks (w\<lparr>part_tags := part_tags w @ [tag task]\<rparr>))
      else Returned () (w\<lparr>upload_object_tasks := task # tasks\<rparr>))"

text \<open>By the time the caller takes the lock the pool has had another opportunity.\<close>

definition WriteBufferFromS3_waitForReadyBackGroundTasks :: "write_buffer \<Rightarrow> (unit, write_buffer) result" where
  "WriteBufferFromS3_waitForReadyBackGroundTasks w =
     (if schedule w \<noteq> None then
        let w' = pool_runs WriteBufferFromS3_run_task w
        in WriteBufferFromS3_ready_tasks (upload_object_tasks w') w'
      else Returned () w)"

text \<open>\<^verbatim>\<open>nextImpl\<close>; the argument is \<^verbatim>\<open>offset()\<close>, the number of bytes in the working buffer.
  The throttler and the profile counters are left out.\<close>

definition WriteBufferFromS3_nextImpl :: "size_t \<Rightarrow> write_buffer \<Rightarrow> (unit, write_buffer) result" where
  "WriteBufferFromS3_nextImpl offset0 w0 =
     (if offset0 = 0 then Returned () w0
      else
        let w1 = (if temporary_buffer w0 = - 1 then WriteBufferFromS3_allocateBuffer w0 else w0);
            w2 = w1\<lparr>temporary_buffer := temporary_buffer w1 + uint offset0,
                   last_part_size := last_part_size w1 + offset0\<rparr>
        in
          andThen (if multipart_upload_id w2 = []
                      \<and> last_part_size w2 > max_single_part_upload_size (settings w2)
                   then WriteBufferFromS3_createMultipartUpload w2 else Returned () w2) (\<lambda>_ w3.
          andThen (if multipart_upload_id w3 \<noteq> [] \<and> last_part_size w3 > upload_part_size w3
                   then andThen (WriteBufferFromS3_writePart w3)
                          (\<lambda>_ w. Returned () (WriteBufferFromS3_allocateBuffer w))
                   else Returned () w3) (\<lambda>_ w4.
          WriteBufferFromS3_waitForReadyBackGroundTasks w4)))"

text \<open>\<^verbatim>\<open>preFinalize\<close> starts with \<^verbatim>\<open>next()\<close>, which hands the bytes still in the working buffer
  to \<^verbatim>\<open>nextImpl\<close>; their number is the argument here.\<close>

definition WriteBufferFromS3_preFinalize :: "size_t \<Rightarrow> write_buffer \<Rightarrow> (unit, write_buffer) result" where
  "WriteBufferFromS3_preFinalize offset0 w =
     andThen (WriteBufferFromS3_nextImpl offset0 w) (\<lambda>_ w.
     andThen (if multipart_upload_id w = [] then WriteBufferFromS3_makeSinglepartUpload w
              else WriteBufferFromS3_writePart w) (\<lambda>_ w.
     Returned () (w\<lparr>is_prefinalized := True\<rparr>)))"

definition WriteBufferFromS3_finalizeImpl :: "size_t \<Rightarrow> write_buffer \<Rightarrow> (unit, write_buffer) result" where
  "WriteBufferFromS3_finalizeImpl offset0 w =
     andThen (if \<not> is_prefinalized w then WriteBufferFromS3_preFinalize offset0 w
              else Returned () w) (\<lambda>_ w.
     andThen (WriteBufferFromS3_waitForAllBackGroundTasks w) (\<lambda>_ w.
     andThen (if multipart_upload_id w \<noteq> [] then WriteBufferFromS3_completeMultipartUpload w
              else Returned () w) (\<lambda>_ w.
     if check_objects_after_upload w then checkObjectExists w else Returned () w)))"

text \<open>The constructor: \<open>upload_part_size\<close> starts at \<open>min_upload_part_size\<close>, and
  \<^verbatim>\<open>allocateBuffer\<close> makes an empty buffer.\<close>

definition WriteBufferFromS3_new :: "s3_client \<Rightarrow> PartUploadSettings \<Rightarrow> bool \<Rightarrow> size_t
    \<Rightarrow> executor option \<Rightarrow> write_buffer" where
  "WriteBufferFromS3_new client settings0 check0 retries0 schedule0 =
     WriteBufferFromS3_allocateBuffer
       \<lparr>client_ptr = client, calls = [], schedule = schedule0, ticks = 0, settings = settings0,
        check_objects_after_upload = check0, max_unexpected_write_error_retries = retries0,
        multipart_upload_id = [], part_tags = [], num_added_bg_tasks = 0,
        num_finished_bg_tasks = 0, upload_part_size = min_upload_part_size settings0,
        temporary_buffer = 0, last_part_size = 0, part_number = 0, upload_object_tasks = [],
        put_object_task = None, is_prefinalized = False, warnings = []\<rparr>"

text \<open>A streaming write as its caller drives it: the working buffer is flushed with
  \<open>n\<^sub>1, \<dots>, n\<^sub>k\<close> bytes in turn, and the write is finalized with \<open>n\<close> bytes still in the
  working buffer.\<close>

fun WriteBufferFromS3_next_all :: "size_t list \<Rightarrow> write_buffer \<Rightarrow> (unit, write_buffer) result" where
  "WriteBufferFromS3_next_all [] w = Returned () w"
| "WriteBufferFromS3_next_all (n # ns) w =
     andThen (WriteBufferFromS3_nextImpl n w) (\<lambda>_ w'. WriteBufferFromS3_next_all ns w')"

definition WriteBufferFromS3_write_and_finalize :: "size_t list \<Rightarrow> size_t \<Rightarrow> write_buffer
    \<Rightarrow> (unit, write_buffer) result" where
  "WriteBufferFromS3_write_and_finalize ns n w =
     andThen (WriteBufferFromS3_next_all ns w) (\<lambda>_ w'. WriteBufferFromS3_finalizeImpl n w')"


section \<open>Concrete inputs\<close>

text \<open>Small settings and object stores on which the functions are evaluated below.\<close>

definition small_settings :: PartUploadSettings where
  "small_settings =
     \<lparr>min_upload_part_size = 16, max_upload_part_size = 64,
      upload_part_size_multiply_factor = 2,
      upload_part_size_multiply_parts_count_threshold = 2,
      max_part_number = 3, max_single_part_upload_size = 32,
      max_single_operation_copy_size = 32\<rparr>"

definition accepting_client :: s3_client where
  "accepting_client history request = Success ''ok''"

text \<open>A store that answers every CompleteMultipartUpload with the error \<open>NoSuchKey\<close> and
  accepts everything else.\<close>

definition no_such_key :: aws_error where
  "no_such_key = \<lparr>GetErrorType = NO_SUCH_KEY, GetExceptionName = ''NoSuchKey''\<rparr>"

definition phantom_complete_client :: s3_client where
  "phantom_complete_client history request =
     (case request of
        CreateMultipartUploadRequest \<Rightarrow> Success ''upload-1''
      | CompleteMultipartUploadRequest _ _ \<Rightarrow> Failure no_such_key
      | _ \<Rightarrow> Success ''etag'')"



text \<open>A writer with an open multipart upload and 20 bytes in its part buffer: one that has
  already used all three part numbers the settings allow, and one that has collected 10000
  tags under settings that allow 20000 parts.\<close>

definition writer_at_part_limit :: write_buffer where
  "writer_at_part_limit =
     (WriteBufferFromS3_new accepting_client small_settings False 1 None)
       \<lparr>multipart_upload_id := ''upload-1'', part_number := 3, temporary_buffer := 20,
        last_part_size := 20\<rparr>"


text \<open>A store that rejects every single-shot upload or copy as too large and accepts
  everything else.  (The AWS SDK has no \<^verbatim>\<open>S3Errors\<close> value for \<open>EntityTooLarge\<close>; the error
  is told by its name.)\<close>

definition entity_too_large :: aws_error where
  "entity_too_large = \<lparr>GetErrorType = OTHER_S3_ERROR 0, GetExceptionName = ''EntityTooLarge''\<rparr>"

definition too_large_client :: s3_client where
  "too_large_client history request =
     (case request of
        PutObjectRequest _ \<Rightarrow> Failure entity_too_large
      | CopyObjectRequest \<Rightarrow> Failure entity_too_large
      | CreateMultipartUploadRequest \<Rightarrow> Success ''upload-1''
      | _ \<Rightarrow> Success ''etag'')"

text \<open>A store that answers the first request it receives with \<open>NoSuchKey\<close> and accepts every
  request after that.\<close>

definition reluctant_client :: s3_client where
  "reluctant_client history request = (if history = [] then Failure no_such_key else Success ''ok'')"


section \<open>Notions used in the statements and proofs\<close>

text \<open>The closures run by the pool change the log of calls, the tasks and the counter of
  finished tasks; every other member of a \<^verbatim>\<open>WriteBufferFromS3\<close> keeps its value.\<close>

definition WriteBufferFromS3_frame :: "write_buffer \<Rightarrow> write_buffer \<Rightarrow> bool" where
  "WriteBufferFromS3_frame w w' \<longleftrightarrow>
     client_ptr w' = client_ptr w \<and> schedule w' = schedule w \<and> settings w' = settings w
     \<and> check_objects_after_upload w' = check_objects_after_upload w
     \<and> max_unexpected_write_error_retries w' = max_unexpected_write_error_retries w
     \<and> multipart_upload_id w' = multipart_upload_id w \<and> part_tags w' = part_tags w
     \<and> num_added_bg_tasks w' = num_added_bg_tasks w
     \<and> upload_part_size w' = upload_part_size w \<and> temporary_buffer w' = temporary_buffer w
     \<and> last_part_size w' = last_part_size w \<and> part_number w' = part_number w
     \<and> is_prefinalized w' = is_prefinalized w \<and> warnings w' = warnings w"

text \<open>A writer that has only buffered \<open>k\<close> bytes so far: it is the object \<open>w0\<close> the
  constructor made, but for its part buffer and the opportunities the pool has had.\<close>

definition WriteBufferFromS3_buffered :: "write_buffer \<Rightarrow> nat \<Rightarrow> write_buffer \<Rightarrow> bool" where
  "WriteBufferFromS3_buffered w0 k w \<longleftrightarrow>
     w = w0\<lparr>ticks := ticks w, temporary_buffer := int k, last_part_size := of_nat k\<rparr>"

text \<open>The store accepts a request whatever it has answered before.\<close>

definition accepts :: "s3_client \<Rightarrow> request \<Rightarrow> bool" where
  "accepts client request \<longleftrightarrow> (\<forall>history. \<exists>result. client history request = Success result)"

text \<open>The single-part upload of a writer with a pool: handed to the pool and not yet run, or
  run (with \<open>k\<close> attempts).\<close>

definition WriteBufferFromS3_put_pending :: "request \<Rightarrow> write_buffer \<Rightarrow> bool" where
  "WriteBufferFromS3_put_pending R w \<longleftrightarrow>
     upload_object_tasks w = [] \<and> requests w = []
     \<and> put_object_task w = Some \<lparr>req = Some R, is_finished = False, exception = None\<rparr>"

definition WriteBufferFromS3_put_done :: "request \<Rightarrow> write_buffer \<Rightarrow> bool" where
  "WriteBufferFromS3_put_done R w \<longleftrightarrow>
     upload_object_tasks w = []
     \<and> (\<exists>task. put_object_task w = Some task \<and> is_finished task
            \<and> (accepts (client_ptr w) R \<longrightarrow> exception task = None))
     \<and> (\<exists>k>0. requests w = replicate k R \<and> (accepts (client_ptr w) R \<longrightarrow> k = 1))"

text \<open>Reading the log of calls: a part upload (UploadPart or UploadPartCopy) that the store
  has failed; an AbortMultipartUpload; a log in which every failed part upload is followed,
  sooner or later, by an AbortMultipartUpload; a log with a failed part upload.\<close>

definition failed_part :: "request \<times> outcome \<Rightarrow> bool" where
  "failed_part c =
     (case c of
        (UploadPartRequest _ _ _, Failure _) \<Rightarrow> True
      | (UploadPartCopyRequest _ _ _ _, Failure _) \<Rightarrow> True
      | _ \<Rightarrow> False)"

definition is_abort :: "request \<times> outcome \<Rightarrow> bool" where
  "is_abort c = (case fst c of AbortMultipartUploadRequest _ \<Rightarrow> True | _ \<Rightarrow> False)"

fun abort_follows :: "(request \<times> outcome) list \<Rightarrow> bool" where
  "abort_follows [] = True"
| "abort_follows (c # cs) = ((failed_part c \<longrightarrow> (\<exists>c' \<in> set cs. is_abort c')) \<and> abort_follows cs)"

definition part_failed :: "(request \<times> outcome) list \<Rightarrow> bool" where
  "part_failed cs = (\<exists>c \<in> set cs. failed_part c)"

text \<open>The background tasks of an \<^verbatim>\<open>UploadHelper\<close>: there are tasks only with a pool, the task
  at index \<open>j\<close> has the identity \<open>j\<close>, every task has its request, and only a task that has
  started can have had its request refused.\<close>

definition UploadHelper_tasks_ok :: "upload_helper \<Rightarrow> bool" where
  "UploadHelper_tasks_ok h \<longleftrightarrow>
     (schedule h = None \<longrightarrow> bg_tasks h = [])
     \<and> num_added_bg_tasks h = int (length (bg_tasks h))
     \<and> map task_id (bg_tasks h) = [0..<length (bg_tasks h)]
     \<and> (\<forall>t \<in> set (bg_tasks h). req t \<noteq> None \<and> (failed t \<noteq> None \<longrightarrow> started t))"

text \<open>A task whose request was refused and which has not sent its abort yet.\<close>

definition owes_abort :: "UploadPartTask \<Rightarrow> bool" where
  "owes_abort t \<longleftrightarrow> failed t \<noteq> None \<and> \<not> is_finished t"

text \<open>What holds of an \<^verbatim>\<open>UploadHelper\<close> while it uploads parts: a failed part that no abort
  has followed yet belongs to a task that is about to send one, and a failed part has left
  its exception in a task, or will.\<close>

definition UploadHelper_abort_inv :: "upload_helper \<Rightarrow> bool" where
  "UploadHelper_abort_inv h \<longleftrightarrow>
     UploadHelper_tasks_ok h
     \<and> (\<not> abort_follows (calls h) \<longrightarrow> (\<exists>t \<in> set (bg_tasks h). owes_abort t))
     \<and> (part_failed (calls h) \<longrightarrow>
          (\<exists>t \<in> set (bg_tasks h). exception t \<noteq> None \<or> owes_abort t))"

text \<open>The same between jobs and after a job that has returned: no part has failed.\<close>

definition UploadHelper_no_failure :: "upload_helper \<Rightarrow> bool" where
  "UploadHelper_no_failure h \<longleftrightarrow> UploadHelper_tasks_ok h \<and> \<not> part_failed (calls h)"

text \<open>A store that accepts everything but part uploads, and knows of no upload to abort.\<close>

definition internal_error :: aws_error where
  "internal_error = \<lparr>GetErrorType = OTHER_S3_ERROR 1, GetExceptionName = ''InternalError''\<rparr>"

definition no_such_upload :: aws_error where
  "no_such_upload = \<lparr>GetErrorType = NO_SUCH_UPLOAD, GetExceptionName = ''NoSuchUpload''\<rparr>"

definition failing_part_client :: s3_client where
  "failing_part_client history request =
     (case request of
        CreateMultipartUploadRequest \<Rightarrow> Success ''upload-1''
      | UploadPartRequest _ _ _ \<Rightarrow> Failure internal_error
      | UploadPartCopyRequest _ _ _ _ \<Rightarrow> Failure internal_error
      | AbortMultipartUploadRequest _ \<Rightarrow> Failure no_such_upload
      | _ \<Rightarrow> Success ''ok'')"

text \<open>A pool that has the first two parts in flight before it sends either.\<close>

definition two_in_flight :: executor where
  "two_in_flight n = (if n = 0 then [0] else if n = 1 then [1] else if n = 2 then [0, 1] else [])"

text \<open>The part uploads in the log, as pairs of the part number and the answer of the store,
  in the order of the log; and the pairs of a tag list: the tag at index \<open>i\<close> with the number
  that \<^verbatim>\<open>completeMultipartUpload\<close> gives it.\<close>

definition part_number_of :: "request \<Rightarrow> int option" where
  "part_number_of request =
     (case request of
        UploadPartRequest _ n _ \<Rightarrow> Some n
      | UploadPartCopyRequest _ n _ _ \<Rightarrow> Some n
      | _ \<Rightarrow> None)"

definition part_answer :: "request \<times> outcome \<Rightarrow> (int \<times> outcome) option" where
  "part_answer c = map_option (\<lambda>n. (n, snd c)) (part_number_of (fst c))"

definition part_answers :: "(request \<times> outcome) list \<Rightarrow> (int \<times> outcome) list" where
  "part_answers cs = List.map_filter part_answer cs"

definition part_number_at :: "nat \<Rightarrow> int" where
  "part_number_at i = static_cast_int (of_nat i + 1)"

definition numbered_tags :: "string list \<Rightarrow> (int \<times> outcome) list" where
  "numbered_tags tags = map (\<lambda>(etag, n). (n, Success etag)) (CompletedMultipartUpload tags)"

text \<open>The tag list is in part-number order, one tag for each part uploaded: the answers of
  the store to the part uploads in the log are, in another order perhaps, the tags of the list,
  each under the number of its place.\<close>

definition tags_in_part_order :: "'a s3_io_scheme \<Rightarrow> bool" where
  "tags_in_part_order s \<longleftrightarrow> mset (part_answers (calls s)) = mset (numbered_tags (part_tags s))"

text \<open>A log with no CompleteMultipartUpload; and a log in which every CompleteMultipartUpload
  lists the tags of the object.\<close>

definition complete_free :: "(request \<times> outcome) list \<Rightarrow> bool" where
  "complete_free cs \<longleftrightarrow>
     (\<forall>c \<in> set cs. case fst c of CompleteMultipartUploadRequest _ _ \<Rightarrow> False | _ \<Rightarrow> True)"

definition completes_with_tags :: "'a s3_io_scheme \<Rightarrow> bool" where
  "completes_with_tags s \<longleftrightarrow>
     (\<forall>c \<in> set (calls s).
        case fst c of
          CompleteMultipartUploadRequest upload_id parts \<Rightarrow>
            upload_id = multipart_upload_id s \<and> parts = CompletedMultipartUpload (part_tags s)
        | _ \<Rightarrow> True)"

text \<open>What holds of the tasks of a multipart upload.  The tasks in the list follow the tags
  already collected: the task at index \<open>j\<close> has the request of part \<open>length tags + j + 1\<close>.  As
  long as no task has failed, the part uploads in the log are the tags collected and the
  tags of the finished tasks.\<close>

definition tasks_numbered :: "nat \<Rightarrow> UploadPartTask list \<Rightarrow> bool" where
  "tasks_numbered k tasks \<longleftrightarrow>
     (\<forall>j < length tasks. \<exists>request. req (tasks ! j) = Some request
          \<and> part_number_of request = Some (part_number_at (k + j)))"

definition task_answer :: "UploadPartTask \<Rightarrow> int \<times> outcome" where
  "task_answer t =
     (case Option.bind (req t) part_number_of of Some n \<Rightarrow> n | None \<Rightarrow> 0, Success (tag t))"

definition clean_task :: "UploadPartTask \<Rightarrow> bool" where
  "clean_task t \<longleftrightarrow> failed t = None \<and> exception t = None"

definition parts_in_order :: "(request \<times> outcome) list \<Rightarrow> string list \<Rightarrow> UploadPartTask list \<Rightarrow> bool" where
  "parts_in_order cs tags tasks \<longleftrightarrow>
     tasks_numbered (length tags) tasks \<and> complete_free cs
     \<and> ((\<forall>t \<in> set tasks. clean_task t) \<longrightarrow>
          mset (part_answers cs)
            = mset (numbered_tags tags) + mset (map task_answer (filter is_finished tasks)))"

text \<open>An \<^verbatim>\<open>UploadHelper\<close> that uploads parts: with a pool the tags are collected only at the
  end; a finished task whose request was refused has its exception; and an upload is aborted
  only after a task has failed.\<close>

definition UploadHelper_order_inv :: "upload_helper \<Rightarrow> bool" where
  "UploadHelper_order_inv h \<longleftrightarrow>
     UploadHelper_tasks_ok h
     \<and> (schedule h \<noteq> None \<longrightarrow> part_tags h = [])
     \<and> (\<forall>t \<in> set (bg_tasks h). is_finished t \<and> failed t \<noteq> None \<longrightarrow> exception t \<noteq> None)
     \<and> ((\<forall>t \<in> set (bg_tasks h). clean_task t) \<longrightarrow> \<not> multipart_upload_aborted h)
     \<and> parts_in_order (calls h) (part_tags h) (bg_tasks h)"

text \<open>An \<^verbatim>\<open>UploadHelper\<close> that has not uploaded a part yet.\<close>

definition UploadHelper_before_parts :: "upload_helper \<Rightarrow> bool" where
  "UploadHelper_before_parts h \<longleftrightarrow>
     (schedule h = None \<longrightarrow> bg_tasks h = []) \<and> part_tags h = [] \<and> bg_tasks h = []
     \<and> num_added_bg_tasks h = 0 \<and> \<not> multipart_upload_aborted h
     \<and> part_answers (calls h) = [] \<and> complete_free (calls h)"

text \<open>A \<^verbatim>\<open>WriteBufferFromS3\<close>: the parts numbered so far are the tags collected and the tasks
  still in the list; the tasks have identities of their own, none of them 0; and the task of a
  single-part upload is no part upload.\<close>

definition WriteBufferFromS3_order_inv :: "write_buffer \<Rightarrow> bool" where
  "WriteBufferFromS3_order_inv w \<longleftrightarrow>
     (schedule w = None \<longrightarrow> upload_object_tasks w = [])
     \<and> part_number w = of_nat (length (part_tags w) + length (upload_object_tasks w))
     \<and> distinct (map task_id (upload_object_tasks w))
     \<and> (\<forall>t \<in> set (upload_object_tasks w).
           0 < task_id t \<and> int (task_id t) \<le> num_added_bg_tasks w \<and> failed t = None)
     \<and> 0 \<le> num_added_bg_tasks w
     \<and> (\<forall>task request. put_object_task w = Some task \<longrightarrow> req task = Some request \<longrightarrow>
           part_number_of request = None \<and> (case request of CompleteMultipartUploadRequest _ _ \<Rightarrow> False | _ \<Rightarrow> True))
     \<and> parts_in_order (calls w) (part_tags w) (upload_object_tasks w)"


section \<open>The part-size planner\<close>


lemma unat_sum_pred:
  fixes T p :: "'a::len word"
  assumes "p \<noteq> 0"
  shows "unat (T + p - 1) = (unat T + unat p - 1) mod 2 ^ LENGTH('a)"
proof -
  have "0 < unat p" using assms by (simp add: unat_gt_0)
  then have "(of_nat (unat T + unat p - 1) :: 'a word) = T + p - 1"
    by (simp add: of_nat_diff)
  then have "unat (T + p - 1) = unat (of_nat (unat T + unat p - 1) :: 'a word)" by simp
  then show ?thesis by (simp only: unat_of_nat)
qed

lemma mod_wrapped_small:
  fixes n K t p :: nat
  assumes "n = t + p - 1" "t < K" "0 < p" "K \<le> n"
  shows "n mod K < p"
proof -
  have "n mod K = (n - K) mod K" using assms(4) by (simp add: le_mod_geq)
  also have "\<dots> \<le> n - K" by (rule mod_less_eq_dividend)
  finally show ?thesis using assms by linarith
qed

lemma ceil_div_exact:
  assumes "p \<noteq> 0" and "ceil_div T p \<noteq> 0"
  shows "unat (ceil_div T p) = (unat T + unat p - 1) div unat p"
proof -
  define n where "n = unat T + unat p - 1"
  define K :: nat where "K = 2 ^ LENGTH(64)"
  have p0: "0 < unat p" using assms(1) by (simp add: unat_gt_0)
  have TK: "unat T < K" unfolding K_def by (rule unsigned_less)
  have u: "unat (ceil_div T p) = (n mod K) div unat p"
    unfolding n_def K_def ceil_div_def using unat_sum_pred[OF assms(1), of T]
    by (simp only: unat_div)
  show ?thesis
  proof (cases "n < K")
    case True
    then show ?thesis using u by (simp add: n_def)
  next
    case False
    then have "n mod K < unat p"
      using mod_wrapped_small[of n "unat T" "unat p" K] TK p0 by (simp add: n_def)
    then have "unat (ceil_div T p) = 0" using u by simp
    then have "ceil_div T p = 0" by (simp add: unat_eq_0)
    with assms(2) show ?thesis by simp
  qed
qed

lemma last_part_bounds:
  fixes T p :: nat
  assumes "0 < T" "0 < p"
  shows "((T + p - 1) div p - 1) * p < T"
    and "T - ((T + p - 1) div p - 1) * p \<le> p"
proof -
  define N where "N = (T + p - 1) div p"
  have e: "T + p - 1 = N * p + (T + p - 1) mod p" by (simp add: N_def)
  have r: "(T + p - 1) mod p < p" using assms(2) by simp
  have "p \<le> T + p - 1" using assms by linarith
  then have N1: "1 \<le> N" unfolding N_def using assms(2)
    by (simp add: Suc_leI div_greater_zero_iff)
  have Np: "N * p = (N - 1) * p + p" using N1
    by (simp add: diff_mult_distrib)
  show "((T + p - 1) div p - 1) * p < T" using e r Np assms unfolding N_def by linarith
  show "T - ((T + p - 1) div p - 1) * p \<le> p" using e r Np assms unfolding N_def by linarith
qed

lemma calculatePartSize_Returned:
  assumes "UploadHelper_calculatePartSize total_size h = Returned () h'"
  shows "h' = h\<lparr>normal_part_size := normal_part_size h'\<rparr>
    \<and> total_size \<noteq> 0
    \<and> min_upload_part_size (settings h) \<noteq> 0
    \<and> min_upload_part_size (settings h) \<le> normal_part_size h'
    \<and> normal_part_size h' \<le> max_upload_part_size (settings h)
    \<and> ceil_div total_size (normal_part_size h') \<noteq> 0
    \<and> ceil_div total_size (normal_part_size h') \<le> max_part_number (settings h)"
  using assms
  by (auto simp: UploadHelper_calculatePartSize_def Let_def word_less_1 not_less
      split: if_splits option.splits prod.splits)

text \<open>
  Claim C2.  For every total size \<open>T > 0\<close> and settings with \<open>min_upload_part_size > 0\<close>,
  \<open>max_part_number > 0\<close> and \<open>min_upload_part_size \<le> max_upload_part_size\<close>: when
  \<^verbatim>\<open>calculatePartSize\<close> returns normally, the part size it stores lies between
  \<open>min_upload_part_size\<close> and \<open>max_upload_part_size\<close>, the number of parts
  \<open>N = ceil(T / part_size)\<close> (computed without wrap-around) is at most \<open>max_part_number\<close>,
  and the final part \<open>T - (N - 1) * part_size\<close> is positive and at most \<open>part_size\<close>.
\<close>

theorem calculatePartSize_bounds:
  assumes "0 < total_size"
    and "0 < min_upload_part_size (settings h)"
    and "0 < max_part_number (settings h)"
    and "min_upload_part_size (settings h) \<le> max_upload_part_size (settings h)"
    and "UploadHelper_calculatePartSize total_size h = Returned () h'"
  shows "min_upload_part_size (settings h) \<le> normal_part_size h'
    \<and> normal_part_size h' \<le> max_upload_part_size (settings h)
    \<and> (let T = unat total_size; part_size = unat (normal_part_size h');
            N = (T + part_size - 1) div part_size
        in N \<le> unat (max_part_number (settings h))
           \<and> (N - 1) * part_size < T
           \<and> T - (N - 1) * part_size \<le> part_size)"
proof -
  note r = calculatePartSize_Returned[OF assms(5)]
  have ps0: "normal_part_size h' \<noteq> 0"
    using r by (metis word_le_0_iff)
  have N: "unat (ceil_div total_size (normal_part_size h'))
      = (unat total_size + unat (normal_part_size h') - 1) div unat (normal_part_size h')"
    using ceil_div_exact[OF ps0] r by simp
  have le: "unat (ceil_div total_size (normal_part_size h')) \<le> unat (max_part_number (settings h))"
    using r by (simp add: word_le_nat_alt)
  have T0: "0 < unat total_size" using assms(1) by (simp add: word_less_nat_alt)
  have p0: "0 < unat (normal_part_size h')" using ps0 by (simp add: unat_gt_0)
  show ?thesis
    using r le last_part_bounds[OF T0 p0] unfolding N Let_def by simp
qed


theorem calculatePartSize_bounds_witness:
  "UploadHelper_calculatePartSize 100
       (UploadHelper_new CopyFileHelper accepting_client 0 100 small_settings False 1 None)
     = Returned () ((UploadHelper_new CopyFileHelper accepting_client 0 100 small_settings False 1 None)
         \<lparr>normal_part_size := 34\<rparr>)
   \<and> (16::size_t) \<le> 34 \<and> (34::size_t) \<le> 64
   \<and> (100 + 34 - 1) div 34 \<le> (3::nat) \<and> ((100 + 34 - 1) div 34 - 1) * 34 < (100::nat)
   \<and> (100::nat) - ((100 + 34 - 1) div 34 - 1) * 34 \<le> 34"
proof -
  let ?h = "UploadHelper_new CopyFileHelper accepting_client 0 100 small_settings False 1 None"
  have r: "UploadHelper_calculatePartSize 100 ?h = Returned () (?h\<lparr>normal_part_size := 34\<rparr>)"
    by (simp add: UploadHelper_calculatePartSize_def UploadHelper_new_def small_settings_def
        ceil_div_def)
  have "0 < (100::size_t)" "0 < min_upload_part_size (settings ?h)"
    "0 < max_part_number (settings ?h)"
    "min_upload_part_size (settings ?h) \<le> max_upload_part_size (settings ?h)"
    by (simp_all add: UploadHelper_new_def small_settings_def)
  from calculatePartSize_bounds[OF this r] r show ?thesis
    by (simp add: UploadHelper_new_def small_settings_def Let_def)
qed

section \<open>Completing a multipart upload\<close>



lemma requests_send: "requests (snd (send r s)) = requests s @ [r]"
  by (simp add: send_def requests_def Let_def)



lemma max_1_pos: "0 < max (x::size_t) 1"
  by (auto simp: max_def word_greater_zero_iff)



text \<open>
  Claim C9.  A part operation of size zero issues no request, leaves the tag list (and
  everything else) as it was, and returns without error: \<^verbatim>\<open>uploadPart\<close> with \<open>part_size = 0\<close>,
  and \<^verbatim>\<open>writePart\<close> with an empty part buffer.
\<close>

theorem empty_part_is_skipped:
  "UploadHelper_uploadPart number part_offset 0 h = Returned () h
   \<and> WriteBufferFromS3_writePart (w\<lparr>temporary_buffer := 0\<rparr>) = Returned () (w\<lparr>temporary_buffer := 0\<rparr>)"
  by (simp add: UploadHelper_uploadPart_def WriteBufferFromS3_writePart_def)

section \<open>The phantom \<open>NoSuchKey\<close> on completion\<close>

lemmas WriteBufferFromS3_defs =
  WriteBufferFromS3_write_and_finalize_def WriteBufferFromS3_new_def
  WriteBufferFromS3_allocateBuffer_def WriteBufferFromS3_nextImpl_def andThen_def
  WriteBufferFromS3_createMultipartUpload_def send_def WriteBufferFromS3_writePart_def
  WriteBufferFromS3_fillUploadRequest_def WriteBufferFromS3_processUploadRequest_def
  WriteBufferFromS3_waitForReadyBackGroundTasks_def WriteBufferFromS3_finalizeImpl_def
  WriteBufferFromS3_preFinalize_def WriteBufferFromS3_waitForAllBackGroundTasks_def
  WriteBufferFromS3_completeMultipartUpload_def CompletedMultipartUpload_def
  WriteBufferFromS3_makeSinglepartUpload_def WriteBufferFromS3_fillPutRequest_def
  WriteBufferFromS3_processPutRequest_def checkObjectExists_def
  static_cast_int_def S3_WARN_MAX_PARTS_def new_task_def
  WriteBufferFromS3_completeMultipartUpload_loop.simps
  WriteBufferFromS3_processPutRequest_loop.simps

lemmas UploadHelper_defs =
  copyDataToS3File_def copyS3File_def UploadHelper_new_def CopyDataToFileHelper_performCopy_def
  CopyFileHelper_performCopy_def CopyDataToFileHelper_performSinglepartUpload_def
  CopyFileHelper_performSingleOperationCopy_def CopyDataToFileHelper_processPutRequest_def
  CopyFileHelper_processCopyRequest_def CopyDataToFileHelper_fillPutRequest_def
  CopyDataToFileHelper_performMultipartUpload_def CopyFileHelper_performMultipartUploadCopy_def
  UploadHelper_performMultipartUpload_def UploadHelper_calculatePartSize_def ceil_div_def
  UploadHelper_createMultipartUpload_def UploadHelper_uploadPart_def
  UploadHelper_fillUploadPartRequest_def UploadHelper_processUploadTask_def
  UploadHelper_processUploadPartRequest_def UploadHelper_abortMultipartUpload_def
  UploadHelper_waitForAllBackGroundTasks_def UploadHelper_completeMultipartUpload_def
  UploadHelper_checkObjectAfterUpload_def checkObjectExists_def CompletedMultipartUpload_def
  andThen_def andThenOpt_def send_def static_cast_int_def new_task_def
  UploadHelper_completeMultipartUpload_loop.simps UploadHelper_performMultipartUpload_loop.simps
  CopyDataToFileHelper_processPutRequest_loop.simps CopyFileHelper_processCopyRequest_loop.simps

text \<open>
  Claim C1, at the input on which the code departs from it.  A streaming write of 40 bytes
  with a single-part threshold of 32 opens a multipart upload and uploads one part; the store
  answers CompleteMultipartUpload with \<open>NoSuchKey\<close>; the retry budget is 1.  The loop
  \<^verbatim>\<open>for (size_t i = 0; i < max_retry; ++i)\<close> of \<^verbatim>\<open>WriteBufferFromS3::completeMultipartUpload\<close>
  ends after the one attempt and \<^verbatim>\<open>finalizeImpl\<close> returns normally: no error is reported,
  and the upload has not been completed.
\<close>

theorem WriteBufferFromS3_complete_returns_silently:
  "returned (WriteBufferFromS3_write_and_finalize [40] 0
       (WriteBufferFromS3_new phantom_complete_client small_settings False 1 None))
   \<and> calls (final_state (WriteBufferFromS3_write_and_finalize [40] 0
       (WriteBufferFromS3_new phantom_complete_client small_settings False 1 None)))
     = [(CreateMultipartUploadRequest, Success ''upload-1''),
        (UploadPartRequest ''upload-1'' 1 (StringStream 40), Success ''etag''),
        (CompleteMultipartUploadRequest ''upload-1'' [(''etag'', 1)], Failure no_such_key)]"
  by (simp add: WriteBufferFromS3_defs small_settings_def phantom_complete_client_def
      no_such_key_def Let_def)

text \<open>The same store and the same budget with \<^verbatim>\<open>copyDataToS3File\<close>: the loop
  \<^verbatim>\<open>for (size_t retries = 1;; ++retries)\<close> of \<^verbatim>\<open>UploadHelper::completeMultipartUpload\<close> throws.\<close>

lemma UploadHelper_complete_throws_at_budget:
  "\<exists>h'. copyDataToS3File phantom_complete_client 0 40 small_settings False 1 None
          = Some (Thrown (S3Exception NO_SUCH_KEY) h')
      \<and> requests h' =
          [CreateMultipartUploadRequest,
           UploadPartRequest ''upload-1'' 1 (LimitSeekableReadBuffer 0 16),
           UploadPartRequest ''upload-1'' 2 (LimitSeekableReadBuffer 16 16),
           UploadPartRequest ''upload-1'' 3 (LimitSeekableReadBuffer 32 8),
           CompleteMultipartUploadRequest ''upload-1'' [(''etag'', 1), (''etag'', 2), (''etag'', 3)]]"
  by (simp add: UploadHelper_defs requests_def
      small_settings_def phantom_complete_client_def no_such_key_def Let_def)

text \<open>In general \<^verbatim>\<open>UploadHelper::completeMultipartUpload\<close> never ends silently: its loop returns
  only after a successful answer and throws the error of the last answer otherwise.\<close>

lemma UploadHelper_complete_loop_outcome:
  "case UploadHelper_completeMultipartUpload_loop request max_retries retries h of
     Returned _ h' \<Rightarrow> (\<exists>out. last (calls h') = (request, Success out))
   | Thrown e h' \<Rightarrow> (\<exists>err. last (calls h') = (request, Failure err)
                            \<and> e = S3Exception (GetErrorType err))"
proof (induction request max_retries retries h rule: UploadHelper_completeMultipartUpload_loop.induct)
  case (1 request max_retries retries h)
  obtain out h' where s: "send request h = (out, h')" by (cases "send request h")
  then have l: "last (calls h') = (request, out)" by (auto simp: send_def Let_def)
  show ?case
  proof (cases out)
    case (Success x)
    then show ?thesis using s l
      by (subst UploadHelper_completeMultipartUpload_loop.simps) simp
  next
    case (Failure err)
    show ?thesis
    proof (cases "GetErrorType err = NO_SUCH_KEY \<and> retries < max_retries")
      case True
      from "1.IH"[OF s[symmetric] Failure True] show ?thesis using s Failure True
        by (subst UploadHelper_completeMultipartUpload_loop.simps) simp
    next
      case False
      then show ?thesis using s Failure l
        by (subst UploadHelper_completeMultipartUpload_loop.simps) auto
    qed
  qed
qed

section \<open>What the pool leaves alone\<close>

lemma WriteBufferFromS3_frame_refl: "WriteBufferFromS3_frame w w"
  by (simp add: WriteBufferFromS3_frame_def)

lemma WriteBufferFromS3_frame_trans:
  "WriteBufferFromS3_frame w w' \<Longrightarrow> WriteBufferFromS3_frame w' w'' \<Longrightarrow> WriteBufferFromS3_frame w w''"
  by (simp add: WriteBufferFromS3_frame_def)

lemma WriteBufferFromS3_frame_send: "WriteBufferFromS3_frame w (snd (send r w))"
  by (simp add: WriteBufferFromS3_frame_def send_def Let_def)

lemma WriteBufferFromS3_frame_put_loop:
  "WriteBufferFromS3_frame w (final_state (WriteBufferFromS3_processPutRequest_loop request max_retry i w))"
proof (induction request max_retry i w rule: WriteBufferFromS3_processPutRequest_loop.induct)
  case (1 request max_retry i w)
  show ?case
  proof (cases "i < max_retry")
    case False
    then show ?thesis
      by (subst WriteBufferFromS3_processPutRequest_loop.simps) (simp add: WriteBufferFromS3_frame_refl)
  next
    case lt: True
    obtain out w' where s: "send request w = (out, w')" by (cases "send request w")
    then have f: "WriteBufferFromS3_frame w w'" using WriteBufferFromS3_frame_send[of w request] by simp
    show ?thesis
    proof (cases out)
      case (Success x)
      then show ?thesis using s f lt
        by (subst WriteBufferFromS3_processPutRequest_loop.simps) simp
    next
      case (Failure err)
      show ?thesis
      proof (cases "GetErrorType err = NO_SUCH_KEY")
        case True
        from "1.IH"[OF lt s[symmetric] Failure True] f show ?thesis using s Failure True lt
          by (subst WriteBufferFromS3_processPutRequest_loop.simps)
             (auto intro: WriteBufferFromS3_frame_trans)
      next
        case False
        then show ?thesis using s Failure f lt
          by (subst WriteBufferFromS3_processPutRequest_loop.simps) auto
      qed
    qed
  qed
qed

lemma WriteBufferFromS3_frame_processPutRequest:
  "WriteBufferFromS3_frame w (final_state (WriteBufferFromS3_processPutRequest task w))"
  by (simp add: WriteBufferFromS3_processPutRequest_def WriteBufferFromS3_frame_put_loop
      WriteBufferFromS3_frame_refl split: option.splits)

lemma WriteBufferFromS3_frame_processUploadRequest:
  "WriteBufferFromS3_frame w (final_state (WriteBufferFromS3_processUploadRequest task w))"
proof (cases "req task")
  case None
  then show ?thesis
    by (simp add: WriteBufferFromS3_processUploadRequest_def WriteBufferFromS3_frame_refl)
next
  case (Some request)
  obtain out w' where s: "send request w = (out, w')" by (cases "send request w")
  then have "WriteBufferFromS3_frame w w'" using WriteBufferFromS3_frame_send[of w request] by simp
  then show ?thesis using Some s
    by (cases out) (simp_all add: WriteBufferFromS3_processUploadRequest_def)
qed

lemma WriteBufferFromS3_frame_run_task:
  "WriteBufferFromS3_frame w (WriteBufferFromS3_run_task i w)"
proof -
  have p: "WriteBufferFromS3_processPutRequest task w = r \<Longrightarrow> WriteBufferFromS3_frame w (final_state r)"
    for task r using WriteBufferFromS3_frame_processPutRequest[of w task] by simp
  have u: "WriteBufferFromS3_processUploadRequest task w = r \<Longrightarrow> WriteBufferFromS3_frame w (final_state r)"
    for task r using WriteBufferFromS3_frame_processUploadRequest[of w task] by simp
  show ?thesis
    unfolding WriteBufferFromS3_run_task_def
    by (auto split: option.splits result.splits dest!: p u
        simp: WriteBufferFromS3_frame_refl WriteBufferFromS3_task_finish_notify_def)
       (simp_all add: WriteBufferFromS3_frame_def)
qed

lemma WriteBufferFromS3_frame_fold_run_task:
  "WriteBufferFromS3_frame w (fold WriteBufferFromS3_run_task steps w)"
proof (induction steps arbitrary: w)
  case Nil
  show ?case by (simp add: WriteBufferFromS3_frame_refl)
next
  case (Cons i steps)
  show ?case
    using WriteBufferFromS3_frame_run_task[of w i] Cons[of "WriteBufferFromS3_run_task i w"]
    by (auto intro: WriteBufferFromS3_frame_trans)
qed

lemma WriteBufferFromS3_pool_runs_frame:
  "settings (pool_runs WriteBufferFromS3_run_task w) = settings w"
  "part_number (pool_runs WriteBufferFromS3_run_task w) = part_number w"
  "warnings (pool_runs WriteBufferFromS3_run_task w) = warnings w"
  "part_tags (pool_runs WriteBufferFromS3_run_task w) = part_tags w"
  "num_added_bg_tasks (pool_runs WriteBufferFromS3_run_task w) = num_added_bg_tasks w"
  "multipart_upload_id (pool_runs WriteBufferFromS3_run_task w) = multipart_upload_id w"
  "schedule (pool_runs WriteBufferFromS3_run_task w) = schedule w"
  "client_ptr (pool_runs WriteBufferFromS3_run_task w) = client_ptr w"
  "temporary_buffer (pool_runs WriteBufferFromS3_run_task w) = temporary_buffer w"
  "last_part_size (pool_runs WriteBufferFromS3_run_task w) = last_part_size w"
  "upload_part_size (pool_runs WriteBufferFromS3_run_task w) = upload_part_size w"
  "is_prefinalized (pool_runs WriteBufferFromS3_run_task w) = is_prefinalized w"
  "check_objects_after_upload (pool_runs WriteBufferFromS3_run_task w) = check_objects_after_upload w"
  "max_unexpected_write_error_retries (pool_runs WriteBufferFromS3_run_task w)
     = max_unexpected_write_error_retries w"
  using WriteBufferFromS3_frame_fold_run_task[of w]
  by (auto simp: pool_runs_def WriteBufferFromS3_frame_def split: option.splits)

section \<open>The limits on the number of parts of a streaming write\<close>

lemma WriteBufferFromS3_fillUploadRequest_cases:
  "WriteBufferFromS3_fillUploadRequest w = r \<Longrightarrow>
     part_number (final_state r) = part_number w + 1
     \<and> calls (final_state r) = calls w
     \<and> settings (final_state r) = settings w
     \<and> multipart_upload_id (final_state r) = multipart_upload_id w
     \<and> part_tags (final_state r) = part_tags w
     \<and> warnings (final_state r) = warnings w
     \<and> schedule (final_state r) = schedule w
     \<and> client_ptr (final_state r) = client_ptr w
     \<and> temporary_buffer (final_state r) = temporary_buffer w
     \<and> num_added_bg_tasks (final_state r) = num_added_bg_tasks w
     \<and> upload_object_tasks (final_state r) = upload_object_tasks w
     \<and> (case r of
          Returned request w' \<Rightarrow>
            request = UploadPartRequest (multipart_upload_id w) (static_cast_int (part_number w + 1))
                        (StringStream (temporary_buffer w))
            \<and> (multipart_upload_id w = [] \<or> part_number w + 1 \<le> max_part_number (settings w))
        | Thrown e w' \<Rightarrow>
            multipart_upload_id w \<noteq> []
            \<and> (if max_part_number (settings w) < part_number w + 1
                then e = Exception INVALID_CONFIG_PARAMETER
                else e = DivisionByZero
                  \<and> upload_part_size_multiply_parts_count_threshold (settings w) = 0))"
  by (auto simp: WriteBufferFromS3_fillUploadRequest_def Let_def not_less split: if_splits)

text \<open>
  Claim C6.  For a streaming write with an open multipart upload and a part to emit:
  whenever \<^verbatim>\<open>writePart\<close> returns, the part number it has used is at most \<open>max_part_number\<close>;
  when the next part number would exceed \<open>max_part_number\<close>, \<^verbatim>\<open>writePart\<close> throws
  \<open>Exception INVALID_CONFIG_PARAMETER\<close> and no request has been made (the log of calls is
  unchanged), with or without a thread pool.  The counter is incremented before the test, so
  in the state left by the exception it is one above the last part number used.
\<close>

theorem WriteBufferFromS3_part_number_limit:
  assumes "multipart_upload_id w \<noteq> []" and "0 < temporary_buffer w"
  shows "(case WriteBufferFromS3_writePart w of
            Returned _ w' \<Rightarrow>
              part_number w' = part_number w + 1
              \<and> part_number w' \<le> max_part_number (settings w')
          | Thrown e w' \<Rightarrow> part_number w' = part_number w + 1)
       \<and> (if max_part_number (settings w) < part_number w + 1
          then \<exists>w'. WriteBufferFromS3_writePart w = Thrown (Exception INVALID_CONFIG_PARAMETER) w'
                 \<and> calls w' = calls w
          else \<forall>e w'. WriteBufferFromS3_writePart w = Thrown e w'
                 \<longrightarrow> e \<noteq> Exception INVALID_CONFIG_PARAMETER)"
proof -
  define w0 where "w0 = (if length (part_tags w) = S3_WARN_MAX_PARTS
    then w\<lparr>warnings := warnings w @ [''Maximum part number in S3 protocol has reached'']\<rparr> else w)"
  have w0: "multipart_upload_id w0 = multipart_upload_id w" "part_number w0 = part_number w"
    "settings w0 = settings w" "calls w0 = calls w" "schedule w0 = schedule w"
    by (simp_all add: w0_def)
  show ?thesis
  proof (cases "schedule w = None")
    case True
    note f = WriteBufferFromS3_fillUploadRequest_cases[OF refl, of w0]
    show ?thesis
    proof (cases "WriteBufferFromS3_fillUploadRequest w0")
      case (Thrown e w1)
      then show ?thesis using f assms True w0
        by (auto simp: WriteBufferFromS3_writePart_def Let_def andThen_def w0_def[symmetric]
            split: if_splits)
    next
      case (Returned request w1)
      obtain out w2 where s: "send request w1 = (out, w2)" by (cases "send request w1")
      then have w2: "part_number w2 = part_number w1" "settings w2 = settings w1"
        by (auto simp: send_def Let_def)
      show ?thesis using f assms True w0 Returned s w2
        by (cases out)
           (auto simp: WriteBufferFromS3_writePart_def Let_def andThen_def w0_def[symmetric]
              WriteBufferFromS3_processUploadRequest_def new_task_def not_less
            split: if_splits)
    qed
  next
    case False
    define w2 where "w2 = w0\<lparr>num_added_bg_tasks := num_added_bg_tasks w0 + 1,
      upload_object_tasks := upload_object_tasks w0 @ [new_task (nat (num_added_bg_tasks w0 + 1))]\<rparr>"
    have w2: "multipart_upload_id w2 = multipart_upload_id w" "part_number w2 = part_number w"
      "settings w2 = settings w" "calls w2 = calls w"
      by (simp_all add: w2_def w0)
    note f = WriteBufferFromS3_fillUploadRequest_cases[OF refl, of w2]
    have wp: "WriteBufferFromS3_writePart w =
      (case WriteBufferFromS3_fillUploadRequest w2 of
         Returned request w3 \<Rightarrow>
           Returned ()
             (pool_runs WriteBufferFromS3_run_task
                (w3\<lparr>upload_object_tasks :=
                     update_task (nat (num_added_bg_tasks w0 + 1)) (\<lambda>t. t\<lparr>req := Some request\<rparr>)
                       (upload_object_tasks w3)\<rparr>))
       | Thrown e w3 \<Rightarrow>
           Thrown e (WriteBufferFromS3_task_finish_notify (nat (num_added_bg_tasks w0 + 1)) w3))"
      using assms False
      by (simp add: WriteBufferFromS3_writePart_def Let_def w0_def[symmetric] w0 w2_def
          cong: result.case_cong)
    show ?thesis
    proof (cases "WriteBufferFromS3_fillUploadRequest w2")
      case (Thrown e w3)
      then show ?thesis using f assms w2 wp
        by (auto simp: WriteBufferFromS3_task_finish_notify_def split: if_splits)
    next
      case (Returned request w3)
      then show ?thesis using f assms w2 wp
        by (auto simp: WriteBufferFromS3_pool_runs_frame not_less)
    qed
  qed
qed

theorem WriteBufferFromS3_part_number_limit_witness:
  "multipart_upload_id writer_at_part_limit \<noteq> []
   \<and> 0 < temporary_buffer writer_at_part_limit
   \<and> max_part_number (settings writer_at_part_limit) < part_number writer_at_part_limit + 1
   \<and> (\<exists>w'. WriteBufferFromS3_writePart writer_at_part_limit
              = Thrown (Exception INVALID_CONFIG_PARAMETER) w'
          \<and> calls w' = [] \<and> part_number w' = 4)"
proof -
  have h: "multipart_upload_id writer_at_part_limit \<noteq> []"
    "0 < temporary_buffer writer_at_part_limit"
    by (simp_all add: writer_at_part_limit_def)
  have e: "max_part_number (settings writer_at_part_limit) < part_number writer_at_part_limit + 1"
    "calls writer_at_part_limit = []" "part_number writer_at_part_limit + 1 = 4"
    by (simp_all add: writer_at_part_limit_def WriteBufferFromS3_new_def
        WriteBufferFromS3_allocateBuffer_def small_settings_def)
  from WriteBufferFromS3_part_number_limit[OF h] h e show ?thesis
    by auto
qed



section \<open>The single-shot paths and their fallback\<close>

text \<open>
  Claim C3 fails as stated: \<^verbatim>\<open>WriteBufferFromS3::processPutRequest\<close> has no fallback.  A
  streaming write of 20 bytes (single-part threshold 32) whose PutObject is answered with
  \<open>EntityTooLarge\<close> ends with \<open>S3Exception\<close>; the PutObject is the only request made.
\<close>

theorem WriteBufferFromS3_put_has_no_fallback:
  "\<not> returned (WriteBufferFromS3_write_and_finalize [] 20
        (WriteBufferFromS3_new too_large_client small_settings False 1 None))
   \<and> calls (final_state (WriteBufferFromS3_write_and_finalize [] 20
        (WriteBufferFromS3_new too_large_client small_settings False 1 None)))
     = [(PutObjectRequest (StringStream 20), Failure entity_too_large)]"
  by (simp add: WriteBufferFromS3_defs small_settings_def too_large_client_def
      entity_too_large_def Let_def)

text \<open>
  Claim C3 as amended.  In \<^verbatim>\<open>copyS3File.cpp\<close> both single-shot paths fall back: when the
  PutObject of \<^verbatim>\<open>copyDataToS3File\<close> or the CopyObject of \<^verbatim>\<open>copyS3File\<close> is answered, at any
  iteration of the retry loop, with an error named \<open>EntityTooLarge\<close> or \<open>InvalidRequest\<close>,
  the function goes on as \<^verbatim>\<open>performMultipartUpload\<close> for the same offset and size, and its
  outcome is that of the multipart upload.  The single PutObject of the streaming writer does
  not: an error other than \<open>NO_SUCH_KEY\<close> is thrown as \<open>S3Exception\<close> at once.
\<close>

theorem single_shot_fallback:
  assumes "client_ptr h (calls h) request = Failure err"
    and "GetExceptionName err = ''EntityTooLarge'' \<or> GetExceptionName err = ''InvalidRequest''"
    and "client_ptr w (calls w) request = Failure err'"
    and "GetErrorType err' \<noteq> NO_SUCH_KEY"
  shows "CopyDataToFileHelper_processPutRequest_loop request max_retries retries h
           = UploadHelper_performMultipartUpload (offset h) (size' h)
               (h\<lparr>calls := calls h @ [(request, Failure err)]\<rparr>)
       \<and> CopyFileHelper_processCopyRequest_loop request max_retries retries h
           = UploadHelper_performMultipartUpload (offset h) (size' h)
               (h\<lparr>calls := calls h @ [(request, Failure err)]\<rparr>)
       \<and> WriteBufferFromS3_processPutRequest
             \<lparr>req = Some request, is_finished = False, exception = None\<rparr> w
           = Thrown (S3Exception (GetErrorType err')) (w\<lparr>calls := calls w @ [(request, Failure err')]\<rparr>)"
proof -
  have a: "CopyDataToFileHelper_processPutRequest_loop request max_retries retries h
           = UploadHelper_performMultipartUpload (offset h) (size' h)
               (h\<lparr>calls := calls h @ [(request, Failure err)]\<rparr>)"
    using assms(1,2)
    by (subst CopyDataToFileHelper_processPutRequest_loop.simps)
       (auto simp: send_def Let_def CopyDataToFileHelper_performMultipartUpload_def)
  have b: "CopyFileHelper_processCopyRequest_loop request max_retries retries h
           = UploadHelper_performMultipartUpload (offset h) (size' h)
               (h\<lparr>calls := calls h @ [(request, Failure err)]\<rparr>)"
    using assms(1,2)
    by (subst CopyFileHelper_processCopyRequest_loop.simps)
       (auto simp: send_def Let_def CopyFileHelper_performMultipartUploadCopy_def)
  have "0 < max (max_unexpected_write_error_retries w) 1" by (rule max_1_pos)
  then have c: "WriteBufferFromS3_processPutRequest
             \<lparr>req = Some request, is_finished = False, exception = None\<rparr> w
           = Thrown (S3Exception (GetErrorType err')) (w\<lparr>calls := calls w @ [(request, Failure err')]\<rparr>)"
    using assms(3,4)
    by (simp add: WriteBufferFromS3_processPutRequest_def,
        subst WriteBufferFromS3_processPutRequest_loop.simps)
       (simp add: send_def Let_def)
  from a b c show ?thesis by simp
qed

theorem single_shot_fallback_witness:
  "client_ptr (UploadHelper_new CopyDataToFileHelper too_large_client 0 20 small_settings False 1 None)
       (calls (UploadHelper_new CopyDataToFileHelper too_large_client 0 20 small_settings False 1 None))
       (PutObjectRequest (LimitSeekableReadBuffer 0 20)) = Failure entity_too_large
   \<and> GetExceptionName entity_too_large = ''EntityTooLarge''
   \<and> GetErrorType entity_too_large \<noteq> NO_SUCH_KEY
   \<and> (\<exists>h'. CopyDataToFileHelper_processPutRequest_loop
            (PutObjectRequest (LimitSeekableReadBuffer 0 20)) 1 1
            (UploadHelper_new CopyDataToFileHelper too_large_client 0 20 small_settings False 1 None)
          = Some (Returned () h')
        \<and> requests h' =
            [PutObjectRequest (LimitSeekableReadBuffer 0 20),
             CreateMultipartUploadRequest,
             UploadPartRequest ''upload-1'' 1 (LimitSeekableReadBuffer 0 16),
             UploadPartRequest ''upload-1'' 2 (LimitSeekableReadBuffer 16 4),
             CompleteMultipartUploadRequest ''upload-1'' [(''etag'', 1), (''etag'', 2)]])"
proof -
  let ?h = "UploadHelper_new CopyDataToFileHelper too_large_client 0 20 small_settings False 1 None"
  let ?w = "WriteBufferFromS3_new too_large_client small_settings False 1 None"
  let ?r = "PutObjectRequest (LimitSeekableReadBuffer 0 20)"
  have h: "client_ptr ?h (calls ?h) ?r = Failure entity_too_large"
    "GetExceptionName entity_too_large = ''EntityTooLarge''
       \<or> GetExceptionName entity_too_large = ''InvalidRequest''"
    "client_ptr ?w (calls ?w) ?r = Failure entity_too_large"
    "GetErrorType entity_too_large \<noteq> NO_SUCH_KEY"
    by (simp_all add: UploadHelper_new_def WriteBufferFromS3_new_def
        WriteBufferFromS3_allocateBuffer_def too_large_client_def entity_too_large_def)
  have m: "\<exists>h'. UploadHelper_performMultipartUpload (offset ?h) (size' ?h)
        (?h\<lparr>calls := calls ?h @ [(?r, Failure entity_too_large)]\<rparr>) = Some (Returned () h')
      \<and> requests h' =
            [?r, CreateMultipartUploadRequest,
             UploadPartRequest ''upload-1'' 1 (LimitSeekableReadBuffer 0 16),
             UploadPartRequest ''upload-1'' 2 (LimitSeekableReadBuffer 16 4),
             CompleteMultipartUploadRequest ''upload-1'' [(''etag'', 1), (''etag'', 2)]]"
    by (simp add: UploadHelper_defs requests_def small_settings_def too_large_client_def
        entity_too_large_def Let_def)
  from single_shot_fallback[OF h, of 1 1] m h show ?thesis
    by (simp add: entity_too_large_def)
qed

section \<open>A streaming write that fits a single part\<close>

lemma WriteBufferFromS3_put_loop_requests:
  assumes "i < max_retry"
  shows "\<exists>k>0. requests (final_state (WriteBufferFromS3_processPutRequest_loop request max_retry i w))
            = requests w @ replicate k request
          \<and> (accepts (client_ptr w) request \<longrightarrow> k = 1
               \<and> returned (WriteBufferFromS3_processPutRequest_loop request max_retry i w))"
  using assms
proof (induction request max_retry i w rule: WriteBufferFromS3_processPutRequest_loop.induct)
  case (1 request max_retry i w)
  note lt = "1.prems"
  obtain out w' where s: "send request w = (out, w')" by (cases "send request w")
  then have rq: "requests w' = requests w @ [request]" using requests_send[of request w] by simp
  have out: "out = client_ptr w (calls w) request" using s by (auto simp: send_def Let_def)
  show ?case
  proof (cases out)
    case (Success x)
    then have "requests (final_state (WriteBufferFromS3_processPutRequest_loop request max_retry i w))
        = requests w @ replicate 1 request
      \<and> returned (WriteBufferFromS3_processPutRequest_loop request max_retry i w)"
      using s rq lt by (subst (1 2) WriteBufferFromS3_processPutRequest_loop.simps) simp
    then show ?thesis by (metis zero_less_one)
  next
    case (Failure err)
    then have na: "\<not> accepts (client_ptr w) request"
      using out by (auto simp: accepts_def) (metis outcome.distinct(1))
    show ?thesis
    proof (cases "GetErrorType err = NO_SUCH_KEY")
      case True
      have e: "WriteBufferFromS3_processPutRequest_loop request max_retry i w
          = WriteBufferFromS3_processPutRequest_loop request max_retry (i + 1) w'"
        using s Failure True lt by (subst WriteBufferFromS3_processPutRequest_loop.simps) simp
      show ?thesis
      proof (cases "i + 1 < max_retry")
        case True
        from "1.IH"[OF lt s[symmetric] Failure \<open>GetErrorType err = NO_SUCH_KEY\<close> True]
        obtain k where "requests (final_state (WriteBufferFromS3_processPutRequest_loop request max_retry (i + 1) w'))
            = requests w' @ replicate k request" by blast
        then have "requests (final_state (WriteBufferFromS3_processPutRequest_loop request max_retry i w))
          = requests w @ replicate (Suc k) request"
          using e rq by (simp add: replicate_app_Cons_same)
        then show ?thesis using na by (metis zero_less_Suc)
      next
        case False
        then have "WriteBufferFromS3_processPutRequest_loop request max_retry (i + 1) w' = Returned () w'"
          by (subst WriteBufferFromS3_processPutRequest_loop.simps) simp
        then have "requests (final_state (WriteBufferFromS3_processPutRequest_loop request max_retry i w))
          = requests w @ replicate 1 request"
          using e rq by simp
        then show ?thesis using na by (metis zero_less_one)
      qed
    next
      case False
      then have "requests (final_state (WriteBufferFromS3_processPutRequest_loop request max_retry i w))
        = requests w @ replicate 1 request"
        using s Failure rq lt by (subst WriteBufferFromS3_processPutRequest_loop.simps) auto
      then show ?thesis using na by (metis zero_less_one)
    qed
  qed
qed

lemma WriteBufferFromS3_run_task_idle:
  assumes "upload_object_tasks w = []" and "put_object_task w = None"
  shows "WriteBufferFromS3_run_task i w = w"
  using assms by (simp add: WriteBufferFromS3_run_task_def)

lemma WriteBufferFromS3_fold_run_task_idle:
  assumes "upload_object_tasks w = []" and "put_object_task w = None"
  shows "fold WriteBufferFromS3_run_task steps w = w"
  using assms by (induction steps) (simp_all add: WriteBufferFromS3_run_task_idle)

lemma WriteBufferFromS3_pool_runs_idle:
  assumes "upload_object_tasks w = []" and "put_object_task w = None"
  shows "pool_runs WriteBufferFromS3_run_task w
     = (case schedule w of None \<Rightarrow> w | Some pool \<Rightarrow> w\<lparr>ticks := Suc (ticks w)\<rparr>)"
  using assms by (simp add: pool_runs_def WriteBufferFromS3_fold_run_task_idle split: option.splits)

lemma of_nat_le_size_t:
  assumes "k \<le> unat (m::size_t)"
  shows "(of_nat k :: size_t) \<le> m"
proof -
  have "unat (of_nat k :: size_t) = k" using assms by (rule le_unat_uoi)
  then show ?thesis using assms by (simp add: word_le_nat_alt)
qed

lemma WriteBufferFromS3_nextImpl_buffered:
  assumes b: "WriteBufferFromS3_buffered w0 k w"
    and w0: "multipart_upload_id w0 = []" "upload_object_tasks w0 = []" "put_object_task w0 = None"
    and le: "k + unat n \<le> unat (max_single_part_upload_size (settings w0))"
  shows "\<exists>w'. WriteBufferFromS3_nextImpl n w = Returned () w'
           \<and> WriteBufferFromS3_buffered w0 (k + unat n) w'"
proof (cases "n = 0")
  case True
  then show ?thesis using b by (simp add: WriteBufferFromS3_nextImpl_def)
next
  case False
  have w: "w = w0\<lparr>ticks := ticks w, temporary_buffer := int k, last_part_size := of_nat k\<rparr>"
    using b by (simp add: WriteBufferFromS3_buffered_def)
  have n1: "int k + uint n = int (k + unat n)" by simp
  have n2: "(of_nat k :: size_t) + n = of_nat (k + unat n)" by simp
  have n3: "\<not> max_single_part_upload_size (settings w0) < of_nat (k + unat n)"
    using of_nat_le_size_t[OF le] by (simp add: not_less)
  define w2 where "w2 = w0\<lparr>ticks := ticks w, temporary_buffer := int (k + unat n),
    last_part_size := of_nat (k + unat n)\<rparr>"
  have i: "upload_object_tasks w2 = []" "put_object_task w2 = None"
    by (simp_all add: w2_def w0)
  have "WriteBufferFromS3_nextImpl n w = WriteBufferFromS3_waitForReadyBackGroundTasks w2"
    by (subst w) (simp add: WriteBufferFromS3_nextImpl_def False Let_def n1 n2 n3 w0 andThen_def
        w2_def del: of_nat_add)
  moreover have "\<exists>w'. WriteBufferFromS3_waitForReadyBackGroundTasks w2 = Returned () w'
      \<and> WriteBufferFromS3_buffered w0 (k + unat n) w'"
  proof (cases "schedule w2")
    case None
    then have "WriteBufferFromS3_waitForReadyBackGroundTasks w2 = Returned () w2"
      by (simp add: WriteBufferFromS3_waitForReadyBackGroundTasks_def)
    moreover have "WriteBufferFromS3_buffered w0 (k + unat n) w2"
      by (simp add: WriteBufferFromS3_buffered_def w2_def)
    ultimately show ?thesis by simp
  next
    case (Some pool)
    have pr: "pool_runs WriteBufferFromS3_run_task w2 = w2\<lparr>ticks := Suc (ticks w2)\<rparr>"
      using WriteBufferFromS3_pool_runs_idle[OF i] Some by simp
    have "WriteBufferFromS3_waitForReadyBackGroundTasks w2
        = Returned () (w2\<lparr>ticks := Suc (ticks w2), upload_object_tasks := []\<rparr>)"
      using Some by (simp add: WriteBufferFromS3_waitForReadyBackGroundTasks_def pr Let_def i)
    moreover have "WriteBufferFromS3_buffered w0 (k + unat n)
        (w2\<lparr>ticks := Suc (ticks w2), upload_object_tasks := []\<rparr>)"
      using w0 by (simp add: WriteBufferFromS3_buffered_def w2_def)
    ultimately show ?thesis by simp
  qed
  ultimately show ?thesis by simp
qed

lemma WriteBufferFromS3_next_all_buffered:
  assumes w0: "multipart_upload_id w0 = []" "upload_object_tasks w0 = []" "put_object_task w0 = None"
  shows "WriteBufferFromS3_buffered w0 k w
    \<Longrightarrow> k + sum_list (map unat ns) \<le> unat (max_single_part_upload_size (settings w0))
    \<Longrightarrow> \<exists>w'. WriteBufferFromS3_next_all ns w = Returned () w'
           \<and> WriteBufferFromS3_buffered w0 (k + sum_list (map unat ns)) w'"
proof (induction ns arbitrary: k w)
  case Nil
  then show ?case by simp
next
  case (Cons n ns)
  from Cons.prems have "k + unat n \<le> unat (max_single_part_upload_size (settings w0))" by simp
  from WriteBufferFromS3_nextImpl_buffered[OF Cons.prems(1) w0 this]
  obtain w1 where w1: "WriteBufferFromS3_nextImpl n w = Returned () w1"
    "WriteBufferFromS3_buffered w0 (k + unat n) w1" by blast
  from Cons.prems have "k + unat n + sum_list (map unat ns)
      \<le> unat (max_single_part_upload_size (settings w0))" by simp
  from Cons.IH[OF w1(2) this] w1(1) show ?case
    by (simp add: andThen_def add.assoc)
qed

lemma send_only_calls: "snd (send r s) = s\<lparr>calls := calls (snd (send r s))\<rparr>"
  by (simp add: send_def Let_def)

lemma WriteBufferFromS3_put_loop_only_calls:
  "final_state (WriteBufferFromS3_processPutRequest_loop request max_retry i w)
     = w\<lparr>calls := calls (final_state (WriteBufferFromS3_processPutRequest_loop request max_retry i w))\<rparr>"
proof (induction request max_retry i w rule: WriteBufferFromS3_processPutRequest_loop.induct)
  case (1 request max_retry i w)
  show ?case
  proof (cases "i < max_retry")
    case False
    then show ?thesis
      by (subst (1 2) WriteBufferFromS3_processPutRequest_loop.simps) simp
  next
    case lt: True
    obtain out w' where s: "send request w = (out, w')" by (cases "send request w")
    then have f: "w' = w\<lparr>calls := calls w'\<rparr>" using send_only_calls[of request w] by simp
    show ?thesis
    proof (cases out)
      case (Success x)
      then show ?thesis using s f lt
        by (subst (1 2) WriteBufferFromS3_processPutRequest_loop.simps) simp
    next
      case (Failure err)
      show ?thesis
      proof (cases "GetErrorType err = NO_SUCH_KEY")
        case True
        have e: "WriteBufferFromS3_processPutRequest_loop request max_retry i w
            = WriteBufferFromS3_processPutRequest_loop request max_retry (i + 1) w'"
          using s Failure True lt by (subst WriteBufferFromS3_processPutRequest_loop.simps) simp
        from "1.IH"[OF lt s[symmetric] Failure True] f show ?thesis
          unfolding e by (metis (no_types, lifting) s3_io.surjective s3_io.update_convs(2))
      next
        case False
        then show ?thesis using s Failure f lt
          by (subst (1 2) WriteBufferFromS3_processPutRequest_loop.simps) auto
      qed
    qed
  qed
qed

lemma WriteBufferFromS3_put_runs:
  assumes "WriteBufferFromS3_put_pending R w"
  shows "WriteBufferFromS3_put_done R (WriteBufferFromS3_run_task 0 w)"
proof -
  let ?task = "\<lparr>req = Some R, is_finished = False, exception = None\<rparr>"
  let ?L = "WriteBufferFromS3_processPutRequest_loop R (max (max_unexpected_write_error_retries w) 1) 0 w"
  have p: "upload_object_tasks w = []" "requests w = []" "put_object_task w = Some ?task"
    using assms by (simp_all add: WriteBufferFromS3_put_pending_def)
  have "0 < max (max_unexpected_write_error_retries w) 1" by (rule max_1_pos)
  from WriteBufferFromS3_put_loop_requests[OF this, of R w] p(2)
  obtain k where k: "0 < k" "requests (final_state ?L) = replicate k R"
    "accepts (client_ptr w) R \<longrightarrow> k = 1 \<and> returned ?L" by auto
  have oc: "final_state ?L = w\<lparr>calls := calls (final_state ?L)\<rparr>"
    by (rule WriteBufferFromS3_put_loop_only_calls)
  have t: "upload_object_tasks (final_state ?L) = []" "client_ptr (final_state ?L) = client_ptr w"
    by (subst oc, simp add: p)+
  show ?thesis
  proof (cases ?L)
    case (Returned x w')
    then have "WriteBufferFromS3_run_task 0 w = w'\<lparr>put_object_task := Some (?task\<lparr>is_finished := True\<rparr>)\<rparr>"
      using p by (simp add: WriteBufferFromS3_run_task_def WriteBufferFromS3_processPutRequest_def)
    then show ?thesis using k t Returned
      by (auto simp: WriteBufferFromS3_put_done_def requests_def)
  next
    case (Thrown e w')
    then have "WriteBufferFromS3_run_task 0 w
        = w'\<lparr>put_object_task := Some (?task\<lparr>exception := Some e, is_finished := True\<rparr>)\<rparr>"
      using p by (simp add: WriteBufferFromS3_run_task_def WriteBufferFromS3_processPutRequest_def)
    then show ?thesis using k t Thrown
      by (auto simp: WriteBufferFromS3_put_done_def requests_def)
  qed
qed

lemma WriteBufferFromS3_put_done_stays:
  assumes "WriteBufferFromS3_put_done R w"
  shows "WriteBufferFromS3_run_task i w = w"
  using assms by (auto simp: WriteBufferFromS3_put_done_def WriteBufferFromS3_run_task_def)

lemma WriteBufferFromS3_put_pending_stays:
  assumes "WriteBufferFromS3_put_pending R w" and "i \<noteq> 0"
  shows "WriteBufferFromS3_run_task i w = w"
  using assms by (auto simp: WriteBufferFromS3_put_pending_def WriteBufferFromS3_run_task_def)

lemma WriteBufferFromS3_put_run_task:
  assumes "WriteBufferFromS3_put_pending R w \<or> WriteBufferFromS3_put_done R w"
  shows "WriteBufferFromS3_put_pending R (WriteBufferFromS3_run_task i w)
       \<or> WriteBufferFromS3_put_done R (WriteBufferFromS3_run_task i w)"
  using assms WriteBufferFromS3_put_runs[of R w] WriteBufferFromS3_put_done_stays[of R w i]
    WriteBufferFromS3_put_pending_stays[of R w i]
  by (cases "i = 0") auto

lemma WriteBufferFromS3_put_fold_run_task:
  "WriteBufferFromS3_put_pending R w \<or> WriteBufferFromS3_put_done R w
    \<Longrightarrow> WriteBufferFromS3_put_pending R (fold WriteBufferFromS3_run_task steps w)
       \<or> WriteBufferFromS3_put_done R (fold WriteBufferFromS3_run_task steps w)"
proof (induction steps arbitrary: w)
  case Nil
  then show ?case by simp
next
  case (Cons i steps)
  from Cons.IH[OF WriteBufferFromS3_put_run_task[OF Cons.prems, of i]] show ?case by simp
qed

lemma WriteBufferFromS3_put_ticks:
  "WriteBufferFromS3_put_pending R (w\<lparr>ticks := t\<rparr>) = WriteBufferFromS3_put_pending R w"
  "WriteBufferFromS3_put_done R (w\<lparr>ticks := t\<rparr>) = WriteBufferFromS3_put_done R w"
  "WriteBufferFromS3_put_pending R (w\<lparr>is_prefinalized := b\<rparr>) = WriteBufferFromS3_put_pending R w"
  "WriteBufferFromS3_put_done R (w\<lparr>is_prefinalized := b\<rparr>) = WriteBufferFromS3_put_done R w"
  by (simp_all add: WriteBufferFromS3_put_pending_def WriteBufferFromS3_put_done_def requests_def)

lemma WriteBufferFromS3_put_pool_runs:
  assumes "WriteBufferFromS3_put_pending R w \<or> WriteBufferFromS3_put_done R w"
  shows "WriteBufferFromS3_put_pending R (pool_runs WriteBufferFromS3_run_task w)
       \<or> WriteBufferFromS3_put_done R (pool_runs WriteBufferFromS3_run_task w)"
  using assms WriteBufferFromS3_put_fold_run_task[OF assms]
  by (simp add: pool_runs_def WriteBufferFromS3_put_ticks split: option.splits)

lemma WriteBufferFromS3_put_wait:
  assumes "WriteBufferFromS3_put_pending R w \<or> WriteBufferFromS3_put_done R w"
    and "schedule w \<noteq> None"
  shows "WriteBufferFromS3_put_done R (final_state (WriteBufferFromS3_waitForAllBackGroundTasks w))
       \<and> (accepts (client_ptr w) R \<longrightarrow> returned (WriteBufferFromS3_waitForAllBackGroundTasks w))
       \<and> WriteBufferFromS3_frame w (final_state (WriteBufferFromS3_waitForAllBackGroundTasks w))"
proof -
  define w1 where "w1 = pool_runs WriteBufferFromS3_run_task w"
  have i1: "WriteBufferFromS3_put_pending R w1 \<or> WriteBufferFromS3_put_done R w1"
    unfolding w1_def by (rule WriteBufferFromS3_put_pool_runs[OF assms(1)])
  then have t1: "upload_object_tasks w1 = []"
    by (auto simp: WriteBufferFromS3_put_pending_def WriteBufferFromS3_put_done_def)
  have f1: "WriteBufferFromS3_frame w w1"
    unfolding w1_def by (simp add: WriteBufferFromS3_frame_def WriteBufferFromS3_pool_runs_frame)
  have wf: "WriteBufferFromS3_wait_finished w = w1"
    by (simp add: WriteBufferFromS3_wait_finished_def w1_def[symmetric] Let_def t1)
  have w1e: "w1\<lparr>upload_object_tasks := []\<rparr> = w1" using t1 by simp
  define w3 where "w3 = WriteBufferFromS3_run_task 0 w1"
  have d3: "WriteBufferFromS3_put_done R w3"
    using i1 WriteBufferFromS3_put_runs[of R w1] WriteBufferFromS3_put_done_stays[of R w1 0]
    unfolding w3_def by auto
  have f3: "WriteBufferFromS3_frame w w3"
    unfolding w3_def using f1 WriteBufferFromS3_frame_run_task[of w1 0]
    by (rule WriteBufferFromS3_frame_trans)
  have p1: "put_object_task w1 \<noteq> None"
    using i1 by (auto simp: WriteBufferFromS3_put_pending_def WriteBufferFromS3_put_done_def)
  have r: "WriteBufferFromS3_waitForAllBackGroundTasks w
      = (case put_object_task w3 of None \<Rightarrow> Returned () w3
         | Some task \<Rightarrow> (case exception task of Some e \<Rightarrow> Thrown e w3 | None \<Rightarrow> Returned () w3))"
    using assms(2) p1
    by (simp add: WriteBufferFromS3_waitForAllBackGroundTasks_def
        WriteBufferFromS3_waitForAllBackGroundTasksUnlocked_def wf Let_def t1 andThen_def w1e
        w3_def[symmetric])
  have c3: "client_ptr w3 = client_ptr w" using f3 by (simp add: WriteBufferFromS3_frame_def)
  show ?thesis
    unfolding r using d3 f3 c3
    by (auto simp: WriteBufferFromS3_put_done_def split: option.splits)
qed

lemma checkObjectExists_requests:
  "requests (final_state (checkObjectExists s)) = requests s @ [HeadObjectRequest]"
proof -
  obtain out s' where s: "send HeadObjectRequest s = (out, s')" by (cases "send HeadObjectRequest s")
  then have "requests s' = requests s @ [HeadObjectRequest]"
    using requests_send[of HeadObjectRequest s] by simp
  then show ?thesis using s by (cases out) (simp_all add: checkObjectExists_def)
qed

lemma WriteBufferFromS3_finalize_single_part:
  assumes w0: "multipart_upload_id w0 = []" "upload_object_tasks w0 = []"
      "put_object_task w0 = None" "\<not> is_prefinalized w0" "calls w0 = []"
    and b: "WriteBufferFromS3_buffered w0 k w"
    and T: "k + unat n = unat (max_single_part_upload_size (settings w0))"
  defines "R \<equiv> PutObjectRequest (StringStream (uint (max_single_part_upload_size (settings w0))))"
  shows "\<exists>j>0. \<exists>hd. requests (final_state (WriteBufferFromS3_finalizeImpl n w)) = replicate j R @ hd
           \<and> (hd = [] \<or> hd = [HeadObjectRequest])
           \<and> (accepts (client_ptr w0) R \<longrightarrow>
                j = 1 \<and> hd = (if check_objects_after_upload w0 then [HeadObjectRequest] else []))"
proof -
  have le: "k + unat n \<le> unat (max_single_part_upload_size (settings w0))" using T by simp
  from WriteBufferFromS3_nextImpl_buffered[OF b w0(1-3) le]
  obtain w2 where n2: "WriteBufferFromS3_nextImpl n w = Returned () w2"
    and b2: "WriteBufferFromS3_buffered w0 (k + unat n) w2" by blast
  have e2: "w2 = w0\<lparr>ticks := ticks w2,
      temporary_buffer := uint (max_single_part_upload_size (settings w0)),
      last_part_size := of_nat (k + unat n)\<rparr>"
    using b2 T by (simp add: WriteBufferFromS3_buffered_def)
  have bw: "\<not> is_prefinalized w"
    using b w0 by (simp add: WriteBufferFromS3_buffered_def) (metis write_buffer.select_convs(7) write_buffer.surjective write_buffer.update_convs(2,3) s3_io.update_convs(4))
  have f2: "multipart_upload_id w2 = []" "temporary_buffer w2 = uint (max_single_part_upload_size (settings w0))"
    "requests w2 = []" "upload_object_tasks w2 = []" "schedule w2 = schedule w0"
    "client_ptr w2 = client_ptr w0" "check_objects_after_upload w2 = check_objects_after_upload w0"
    by (subst e2, simp add: w0 requests_def)+
  let ?task = "\<lparr>req = Some R, is_finished = False, exception = None\<rparr>"
  have fin: "WriteBufferFromS3_finalizeImpl n w =
     andThen (andThen (WriteBufferFromS3_makeSinglepartUpload w2)
                (\<lambda>_ w. Returned () (w\<lparr>is_prefinalized := True\<rparr>))) (\<lambda>_ w.
     andThen (WriteBufferFromS3_waitForAllBackGroundTasks w) (\<lambda>_ w.
     andThen (if multipart_upload_id w \<noteq> [] then WriteBufferFromS3_completeMultipartUpload w
              else Returned () w) (\<lambda>_ w.
     if check_objects_after_upload w then checkObjectExists w else Returned () w)))"
    using bw n2 f2(1)
    by (simp add: WriteBufferFromS3_finalizeImpl_def WriteBufferFromS3_preFinalize_def andThen_def)
  show ?thesis
  proof (cases "schedule w0")
    case None
    let ?L = "WriteBufferFromS3_processPutRequest_loop R (max (max_unexpected_write_error_retries w2) 1) 0 w2"
    have ms: "WriteBufferFromS3_makeSinglepartUpload w2 = ?L"
      using None f2
      by (simp add: WriteBufferFromS3_makeSinglepartUpload_def Let_def
          WriteBufferFromS3_fillPutRequest_def WriteBufferFromS3_processPutRequest_def R_def)
    have "0 < max (max_unexpected_write_error_retries w2) 1" by (rule max_1_pos)
    from WriteBufferFromS3_put_loop_requests[OF this, of R w2] f2
    obtain j where j: "0 < j" "requests (final_state ?L) = replicate j R"
      "accepts (client_ptr w0) R \<longrightarrow> j = 1 \<and> returned ?L" by auto
    have oc: "final_state ?L = w2\<lparr>calls := calls (final_state ?L)\<rparr>"
      by (rule WriteBufferFromS3_put_loop_only_calls)
    have ff: "multipart_upload_id (final_state ?L) = []" "schedule (final_state ?L) = None"
      "check_objects_after_upload (final_state ?L) = check_objects_after_upload w0"
      by (subst oc, simp add: f2 None)+
    show ?thesis
    proof (cases ?L)
      case (Thrown e w')
      then have "requests (final_state (WriteBufferFromS3_finalizeImpl n w)) = replicate j R @ []"
        using j by (simp add: fin ms andThen_def)
      moreover have "\<not> accepts (client_ptr w0) R" using j(3) Thrown by auto
      ultimately show ?thesis using j(1) by blast
    next
      case (Returned x w')
      then have w': "multipart_upload_id w' = []" "schedule w' = None"
        "check_objects_after_upload w' = check_objects_after_upload w0"
        "requests w' = replicate j R"
        using ff j by simp_all
      have "requests (final_state (WriteBufferFromS3_finalizeImpl n w))
          = replicate j R @ (if check_objects_after_upload w0 then [HeadObjectRequest] else [])"
        using Returned w'
        by (simp add: fin ms andThen_def WriteBufferFromS3_waitForAllBackGroundTasks_def
            checkObjectExists_requests requests_def[of "_\<lparr>is_prefinalized := True\<rparr>"])
           (simp add: requests_def)
      then show ?thesis using j(1,3) by auto
    qed
  next
    case (Some pool)
    define w3 where "w3 = (pool_runs WriteBufferFromS3_run_task (w2\<lparr>put_object_task := Some ?task\<rparr>))
      \<lparr>is_prefinalized := True\<rparr>"
    have ms: "WriteBufferFromS3_makeSinglepartUpload w2
        = Returned () (pool_runs WriteBufferFromS3_run_task (w2\<lparr>put_object_task := Some ?task\<rparr>))"
      using Some f2
      by (simp add: WriteBufferFromS3_makeSinglepartUpload_def Let_def
          WriteBufferFromS3_fillPutRequest_def R_def)
    have "WriteBufferFromS3_put_pending R (w2\<lparr>put_object_task := Some ?task\<rparr>)"
      using f2 by (simp add: WriteBufferFromS3_put_pending_def requests_def)
    then have i3: "WriteBufferFromS3_put_pending R w3 \<or> WriteBufferFromS3_put_done R w3"
      unfolding w3_def using WriteBufferFromS3_put_pool_runs[of R "w2\<lparr>put_object_task := Some ?task\<rparr>"]
      by (simp add: WriteBufferFromS3_put_ticks)
    have f3: "schedule w3 \<noteq> None" "multipart_upload_id w3 = []" "client_ptr w3 = client_ptr w0"
      "check_objects_after_upload w3 = check_objects_after_upload w0"
      unfolding w3_def using Some f2 by (simp_all add: WriteBufferFromS3_pool_runs_frame)
    let ?W = "WriteBufferFromS3_waitForAllBackGroundTasks w3"
    from WriteBufferFromS3_put_wait[OF i3 f3(1)]
    have d: "WriteBufferFromS3_put_done R (final_state ?W)"
      and a: "accepts (client_ptr w0) R \<longrightarrow> returned ?W"
      and fr: "WriteBufferFromS3_frame w3 (final_state ?W)"
      using f3 by simp_all
    from d f3 fr obtain j where j: "0 < j" "requests (final_state ?W) = replicate j R"
      "accepts (client_ptr w0) R \<longrightarrow> j = 1"
      by (auto simp: WriteBufferFromS3_put_done_def WriteBufferFromS3_frame_def)
    have fw: "multipart_upload_id (final_state ?W) = []"
      "check_objects_after_upload (final_state ?W) = check_objects_after_upload w0"
      using fr f3 by (simp_all add: WriteBufferFromS3_frame_def)
    have fin3: "WriteBufferFromS3_finalizeImpl n w =
      andThen ?W (\<lambda>_ w.
       andThen (if multipart_upload_id w \<noteq> [] then WriteBufferFromS3_completeMultipartUpload w
                else Returned () w) (\<lambda>_ w.
       if check_objects_after_upload w then checkObjectExists w else Returned () w))"
      by (simp add: fin ms andThen_def w3_def)
    show ?thesis
    proof (cases ?W)
      case (Thrown e w')
      then have "requests (final_state (WriteBufferFromS3_finalizeImpl n w)) = replicate j R @ []"
        using j by (simp add: fin3 andThen_def)
      moreover have "\<not> accepts (client_ptr w0) R" using a Thrown by auto
      ultimately show ?thesis using j(1) by blast
    next
      case (Returned x w')
      then have "requests (final_state (WriteBufferFromS3_finalizeImpl n w))
          = replicate j R @ (if check_objects_after_upload w0 then [HeadObjectRequest] else [])"
        using j fw by (simp add: fin3 andThen_def checkObjectExists_requests)
      then show ?thesis using j(1,3) by auto
    qed
  qed
qed

text \<open>
  Claim C8.  A streaming write whose bytes (those flushed by the calls of \<^verbatim>\<open>next\<close> and those
  still in the working buffer at \<^verbatim>\<open>finalize\<close>) add up to exactly
  \<open>max_single_part_upload_size\<close> makes no multipart call: all it sends is the PutObject of the
  whole content, followed at most by the HeadObject of \<open>check_objects_after_upload\<close>.  When
  the store accepts the PutObject there is exactly one PutObject.  (A PutObject answered with
  \<open>NoSuchKey\<close> is sent again, up to the retry budget.)  This holds with and without a pool.
\<close>

theorem WriteBufferFromS3_single_part_boundary:
  assumes "sum_list (map unat ns) + unat n = unat (max_single_part_upload_size settings0)"
  shows "let put = PutObjectRequest (StringStream (uint (max_single_part_upload_size settings0)));
             sent = requests (final_state (WriteBufferFromS3_write_and_finalize ns n
                      (WriteBufferFromS3_new client settings0 check0 retries0 schedule0)))
         in (\<exists>j>0. \<exists>hd. sent = replicate j put @ hd \<and> (hd = [] \<or> hd = [HeadObjectRequest]))
            \<and> (accepts client put \<longrightarrow>
                 sent = put # (if check0 then [HeadObjectRequest] else []))"
proof -
  define w0 where "w0 = WriteBufferFromS3_new client settings0 check0 retries0 schedule0"
  have w0: "multipart_upload_id w0 = []" "upload_object_tasks w0 = []"
    "put_object_task w0 = None" "\<not> is_prefinalized w0" "calls w0 = []"
    and c0: "settings w0 = settings0" "client_ptr w0 = client" "check_objects_after_upload w0 = check0"
    by (simp_all add: w0_def WriteBufferFromS3_new_def WriteBufferFromS3_allocateBuffer_def)
  have b0: "WriteBufferFromS3_buffered w0 0 w0"
    by (simp add: WriteBufferFromS3_buffered_def w0_def WriteBufferFromS3_new_def
        WriteBufferFromS3_allocateBuffer_def)
  have le: "0 + sum_list (map unat ns) \<le> unat (max_single_part_upload_size (settings w0))"
    using assms c0 by simp
  from WriteBufferFromS3_next_all_buffered[OF w0(1-3) b0 le]
  obtain w1 where w1: "WriteBufferFromS3_next_all ns w0 = Returned () w1"
    "WriteBufferFromS3_buffered w0 (sum_list (map unat ns)) w1" by auto
  have T: "sum_list (map unat ns) + unat n = unat (max_single_part_upload_size (settings w0))"
    using assms c0 by simp
  have e: "WriteBufferFromS3_write_and_finalize ns n w0 = WriteBufferFromS3_finalizeImpl n w1"
    using w1(1) by (simp add: WriteBufferFromS3_write_and_finalize_def andThen_def)
  from WriteBufferFromS3_finalize_single_part[OF w0 w1(2) T]
  show ?thesis
    unfolding Let_def w0_def[symmetric] e c0 by (auto simp: c0)
qed

theorem WriteBufferFromS3_single_part_boundary_witness:
  "sum_list (map unat [10, 22 :: size_t]) + unat (0 :: size_t)
       = unat (max_single_part_upload_size small_settings)
   \<and> accepts accepting_client (PutObjectRequest (StringStream 32))
   \<and> requests (final_state (WriteBufferFromS3_write_and_finalize [10, 22] 0
          (WriteBufferFromS3_new accepting_client small_settings False 1 None)))
       = [PutObjectRequest (StringStream 32)]"
proof -
  have h: "sum_list (map unat [10, 22 :: size_t]) + unat (0 :: size_t)
       = unat (max_single_part_upload_size small_settings)"
    by (simp add: small_settings_def)
  have a: "accepts accepting_client (PutObjectRequest (StringStream 32))"
    by (simp add: accepts_def accepting_client_def)
  have u: "uint (max_single_part_upload_size small_settings) = 32"
    by (simp add: small_settings_def)
  from WriteBufferFromS3_single_part_boundary[OF h, of accepting_client False 1 None] h a
  show ?thesis by (simp add: Let_def u)
qed

text \<open>
  Claim C8 as it is written says ``exactly one PutObject'', and that fails.  A write of exactly
  \<open>max_single_part_upload_size = 32\<close> bytes, with a retry budget of 2, to a store that answers
  the first PutObject with \<open>NoSuchKey\<close>: \<^verbatim>\<open>processPutRequest\<close> sends the PutObject again, and the
  write returns having sent two.
\<close>

theorem WriteBufferFromS3_single_part_boundary_retries:
  "sum_list (map unat [10, 22 :: size_t]) + unat (0 :: size_t)
       = unat (max_single_part_upload_size small_settings)
   \<and> returned (WriteBufferFromS3_write_and_finalize [10, 22] 0
          (WriteBufferFromS3_new reluctant_client small_settings False 2 None))
   \<and> requests (final_state (WriteBufferFromS3_write_and_finalize [10, 22] 0
          (WriteBufferFromS3_new reluctant_client small_settings False 2 None)))
       = [PutObjectRequest (StringStream 32), PutObjectRequest (StringStream 32)]"
  by (simp add: WriteBufferFromS3_defs Let_def small_settings_def reluctant_client_def
      no_such_key_def requests_def)


section \<open>The steps of the background tasks\<close>

lemma update_task_set:
  "set (update_task i f ts) = (\<lambda>t. if task_id t = i then f t else t) ` set ts"
  by (simp add: update_task_def)

lemma update_task_length [simp]: "length (update_task i f ts) = length ts"
  by (simp add: update_task_def)

lemma update_task_nth:
  "j < length ts \<Longrightarrow> update_task i f ts ! j = (if task_id (ts ! j) = i then f (ts ! j) else ts ! j)"
  by (simp add: update_task_def)

lemma update_task_twice:
  "(\<And>t. task_id (g t) = task_id t) \<Longrightarrow>
   update_task i f (update_task i g ts) = update_task i (\<lambda>t. f (g t)) ts"
  by (simp add: update_task_def)

lemma update_task_Nil [simp]: "(update_task i f ts = []) = (ts = [])"
  by (simp add: update_task_def)

lemma update_task_ids:
  "(\<And>t. task_id (f t) = task_id t) \<Longrightarrow> map task_id (update_task i f ts) = map task_id ts"
  by (simp add: update_task_def)

lemma find_task_member:
  "find (\<lambda>t. task_id t = i) tasks = Some task \<Longrightarrow> task \<in> set tasks \<and> task_id task = i"
  by (auto simp: find_Some_iff)

lemma task_ids_unique:
  assumes "distinct (map task_id tasks)" and "find (\<lambda>t. task_id t = i) tasks = Some task"
    and "t \<in> set tasks" and "task_id t = i"
  shows "t = task"
proof -
  from find_task_member[OF assms(2)] have "task \<in> set tasks" "task_id task = i" by simp_all
  with assms(1,3,4) show ?thesis by (simp add: distinct_map inj_on_def)
qed

lemma UploadHelper_abortMultipartUpload_calls:
  "\<exists>out. UploadHelper_abortMultipartUpload h
     = h\<lparr>calls := calls h @ [(AbortMultipartUploadRequest (multipart_upload_id h), out)],
         multipart_upload_aborted := True\<rparr>"
  by (rule exI[of _ "client_ptr h (calls h) (AbortMultipartUploadRequest (multipart_upload_id h))"])
     (simp add: UploadHelper_abortMultipartUpload_def send_def Let_def)

lemma UploadHelper_processUploadPartRequest_cases:
  "UploadHelper_processUploadPartRequest request h = r \<Longrightarrow>
     (case r of
        Returned etag h' \<Rightarrow> h' = h\<lparr>calls := calls h @ [(request, Success etag)]\<rparr>
          \<and> client_ptr h (calls h) request = Success etag
      | Thrown e h' \<Rightarrow>
          (\<exists>err out. h' = h\<lparr>calls := calls h @ [(request, Failure err),
                                  (AbortMultipartUploadRequest (multipart_upload_id h), out)],
                               multipart_upload_aborted := True\<rparr>
             \<and> client_ptr h (calls h) request = Failure err
             \<and> e = (case dynamic_type h of
                    CopyDataToFileHelper \<Rightarrow> S3Exception (GetErrorType err)
                  | CopyFileHelper \<Rightarrow> Exception S3_ERROR)))"
  by (auto simp: UploadHelper_processUploadPartRequest_def send_def Let_def
      UploadHelper_abortMultipartUpload_def split: outcome.splits)

text \<open>The steps a task can take, with what each does to the object.\<close>

lemma UploadHelper_run_task_cases [case_names idle skip start no_request accepted refused abort]:
  obtains
    (idle) "\<forall>task. find (\<lambda>t. task_id t = i) (bg_tasks h) = Some task \<longrightarrow> is_finished task"
      "UploadHelper_run_task i h = h"
  | (skip) task where "find (\<lambda>t. task_id t = i) (bg_tasks h) = Some task"
      "\<not> is_finished task" "\<not> started task" "multipart_upload_aborted h"
      "UploadHelper_run_task i h
         = h\<lparr>bg_tasks := update_task i (\<lambda>t. t\<lparr>is_finished := True\<rparr>) (bg_tasks h),
             num_finished_bg_tasks := num_finished_bg_tasks h + 1\<rparr>"
  | (start) task where "find (\<lambda>t. task_id t = i) (bg_tasks h) = Some task"
      "\<not> is_finished task" "\<not> started task" "\<not> multipart_upload_aborted h"
      "UploadHelper_run_task i h
         = h\<lparr>bg_tasks := update_task i (\<lambda>t. t\<lparr>started := True\<rparr>) (bg_tasks h)\<rparr>"
  | (no_request) task where "find (\<lambda>t. task_id t = i) (bg_tasks h) = Some task"
      "\<not> is_finished task" "started task" "req task = None"
      "UploadHelper_run_task i h
         = h\<lparr>bg_tasks := update_task i (\<lambda>t. t\<lparr>is_finished := True\<rparr>) (bg_tasks h),
             num_finished_bg_tasks := num_finished_bg_tasks h + 1\<rparr>"
  | (accepted) task request etag where "find (\<lambda>t. task_id t = i) (bg_tasks h) = Some task"
      "\<not> is_finished task" "started task" "req task = Some request" "failed task = None"
      "client_ptr h (calls h) request = Success etag"
      "UploadHelper_run_task i h
         = h\<lparr>calls := calls h @ [(request, Success etag)],
             bg_tasks := update_task i (\<lambda>t. t\<lparr>tag := etag, is_finished := True\<rparr>) (bg_tasks h),
             num_finished_bg_tasks := num_finished_bg_tasks h + 1\<rparr>"
  | (refused) task request err where "find (\<lambda>t. task_id t = i) (bg_tasks h) = Some task"
      "\<not> is_finished task" "started task" "req task = Some request" "failed task = None"
      "client_ptr h (calls h) request = Failure err"
      "UploadHelper_run_task i h
         = h\<lparr>calls := calls h @ [(request, Failure err)],
             bg_tasks := update_task i (\<lambda>t. t\<lparr>failed := Some err\<rparr>) (bg_tasks h)\<rparr>"
  | (abort) task request err out e where "find (\<lambda>t. task_id t = i) (bg_tasks h) = Some task"
      "\<not> is_finished task" "started task" "req task = Some request" "failed task = Some err"
      "UploadHelper_run_task i h
         = h\<lparr>calls := calls h @ [(AbortMultipartUploadRequest (multipart_upload_id h), out)],
             multipart_upload_aborted := True,
             bg_tasks := update_task i (\<lambda>t. t\<lparr>exception := Some e, is_finished := True\<rparr>) (bg_tasks h),
             num_finished_bg_tasks := num_finished_bg_tasks h + 1\<rparr>"
proof (cases "find (\<lambda>t. task_id t = i) (bg_tasks h)")
  case None
  then have "UploadHelper_run_task i h = h" by (simp add: UploadHelper_run_task_def)
  then show ?thesis using None by (intro idle) simp_all
next
  case found: (Some task)
  show ?thesis
  proof (cases "is_finished task")
    case True
    then have "UploadHelper_run_task i h = h" using found by (simp add: UploadHelper_run_task_def)
    then show ?thesis using found True by (intro idle) simp_all
  next
    case nf: False
    show ?thesis
    proof (cases "started task")
      case False
      show ?thesis
      proof (cases "multipart_upload_aborted h")
        case True
        show ?thesis
          by (rule skip[OF found nf False True])
             (simp add: UploadHelper_run_task_def UploadHelper_task_finish_notify_def found nf False True)
      next
        case na: False
        show ?thesis
          by (rule start[OF found nf False na])
             (simp add: UploadHelper_run_task_def found nf False na)
      qed
    next
      case st: True
      show ?thesis
      proof (cases "req task")
        case None
        show ?thesis
          by (rule no_request[OF found nf st None])
             (simp add: UploadHelper_run_task_def UploadHelper_task_finish_notify_def found nf st None)
      next
        case rq: (Some request)
        show ?thesis
        proof (cases "failed task")
          case None
          show ?thesis
          proof (cases "client_ptr h (calls h) request")
            case (Success etag)
            show ?thesis
              by (rule accepted[OF found nf st rq None Success])
                 (simp add: UploadHelper_run_task_def UploadHelper_task_finish_notify_def found nf st
                   rq None Success send_def Let_def update_task_twice)
          next
            case (Failure err)
            show ?thesis
              by (rule refused[OF found nf st rq None Failure])
                 (simp add: UploadHelper_run_task_def found nf st rq None Failure send_def Let_def)
          qed
        next
          case (Some err)
          show ?thesis
            by (rule abort[OF found nf st rq Some,
                  where out = "client_ptr h (calls h) (AbortMultipartUploadRequest (multipart_upload_id h))"
                    and e = "case dynamic_type h of
                        CopyDataToFileHelper \<Rightarrow> S3Exception (GetErrorType err)
                      | CopyFileHelper \<Rightarrow> Exception S3_ERROR"])
               (simp add: UploadHelper_run_task_def UploadHelper_task_finish_notify_def found nf st
                 rq Some send_def Let_def update_task_twice UploadHelper_abortMultipartUpload_def)
        qed
      qed
    qed
  qed
qed

text \<open>What no step of a task touches.\<close>

lemma UploadHelper_run_task_frame:
  "schedule (UploadHelper_run_task i h) = schedule h
   \<and> num_added_bg_tasks (UploadHelper_run_task i h) = num_added_bg_tasks h
   \<and> part_tags (UploadHelper_run_task i h) = part_tags h
   \<and> multipart_upload_id (UploadHelper_run_task i h) = multipart_upload_id h
   \<and> normal_part_size (UploadHelper_run_task i h) = normal_part_size h
   \<and> dynamic_type (UploadHelper_run_task i h) = dynamic_type h
   \<and> client_ptr (UploadHelper_run_task i h) = client_ptr h
   \<and> settings (UploadHelper_run_task i h) = settings h
   \<and> ticks (UploadHelper_run_task i h) = ticks h
   \<and> map task_id (bg_tasks (UploadHelper_run_task i h)) = map task_id (bg_tasks h)
   \<and> map req (bg_tasks (UploadHelper_run_task i h)) = map req (bg_tasks h)"
  by (cases rule: UploadHelper_run_task_cases[of i h]) (simp_all add: update_task_def)

lemma UploadHelper_fold_run_task_frame:
  "schedule (fold UploadHelper_run_task steps h) = schedule h
   \<and> num_added_bg_tasks (fold UploadHelper_run_task steps h) = num_added_bg_tasks h
   \<and> part_tags (fold UploadHelper_run_task steps h) = part_tags h
   \<and> multipart_upload_id (fold UploadHelper_run_task steps h) = multipart_upload_id h
   \<and> normal_part_size (fold UploadHelper_run_task steps h) = normal_part_size h
   \<and> dynamic_type (fold UploadHelper_run_task steps h) = dynamic_type h
   \<and> client_ptr (fold UploadHelper_run_task steps h) = client_ptr h
   \<and> settings (fold UploadHelper_run_task steps h) = settings h
   \<and> ticks (fold UploadHelper_run_task steps h) = ticks h
   \<and> map task_id (bg_tasks (fold UploadHelper_run_task steps h)) = map task_id (bg_tasks h)
   \<and> map req (bg_tasks (fold UploadHelper_run_task steps h)) = map req (bg_tasks h)"
proof (induction steps arbitrary: h)
  case Nil
  show ?case by simp
next
  case (Cons i steps)
  show ?case using Cons[of "UploadHelper_run_task i h"] UploadHelper_run_task_frame[of i h] by simp
qed

lemma UploadHelper_pool_runs_frame:
  "schedule (pool_runs UploadHelper_run_task h) = schedule h
   \<and> num_added_bg_tasks (pool_runs UploadHelper_run_task h) = num_added_bg_tasks h
   \<and> part_tags (pool_runs UploadHelper_run_task h) = part_tags h
   \<and> multipart_upload_id (pool_runs UploadHelper_run_task h) = multipart_upload_id h
   \<and> normal_part_size (pool_runs UploadHelper_run_task h) = normal_part_size h
   \<and> dynamic_type (pool_runs UploadHelper_run_task h) = dynamic_type h
   \<and> client_ptr (pool_runs UploadHelper_run_task h) = client_ptr h
   \<and> settings (pool_runs UploadHelper_run_task h) = settings h
   \<and> map task_id (bg_tasks (pool_runs UploadHelper_run_task h)) = map task_id (bg_tasks h)
   \<and> map req (bg_tasks (pool_runs UploadHelper_run_task h)) = map req (bg_tasks h)"
  using UploadHelper_fold_run_task_frame[of _ h]
  by (simp add: pool_runs_def split: option.splits)

lemma UploadHelper_run_task_length [simp]:
  "length (bg_tasks (UploadHelper_run_task i h)) = length (bg_tasks h)"
  using UploadHelper_run_task_frame[of i h] by (metis length_map)

lemma UploadHelper_pool_runs_length [simp]:
  "length (bg_tasks (pool_runs UploadHelper_run_task h)) = length (bg_tasks h)"
  using UploadHelper_pool_runs_frame[of h] by (metis length_map)

lemma UploadHelper_run_task_keeps_finished:
  assumes "j < length (bg_tasks h)" and "is_finished (bg_tasks h ! j)"
  shows "is_finished (bg_tasks (UploadHelper_run_task i h) ! j)"
  using assms by (cases rule: UploadHelper_run_task_cases[of i h]) (simp_all add: update_task_nth)

text \<open>How far a task has come: scheduled, started, refused.  A step of the task takes it
  further, or finishes it.\<close>

definition task_stage :: "UploadPartTask \<Rightarrow> nat" where
  "task_stage t = (if started t then (if failed t \<noteq> None then 2 else 1) else 0)"

lemma task_stage_le: "task_stage t \<le> 2"
  by (simp add: task_stage_def)

lemma UploadHelper_run_task_moves:
  assumes ids: "map task_id (bg_tasks h) = [0..<length (bg_tasks h)]" and j: "j < length (bg_tasks h)"
  shows "is_finished (bg_tasks (UploadHelper_run_task j h) ! j)
       \<or> task_stage (bg_tasks h ! j) < task_stage (bg_tasks (UploadHelper_run_task j h) ! j)"
proof -
  have id: "task_id (bg_tasks h ! j) = j"
    using ids j by (metis nth_map nth_upt add_0)
  have d: "distinct (map task_id (bg_tasks h))" using ids by simp
  have m: "bg_tasks h ! j \<in> set (bg_tasks h)" using j by simp
  then have "find (\<lambda>t. task_id t = j) (bg_tasks h) \<noteq> None"
    using id unfolding find_None_iff by blast
  then obtain task where found: "find (\<lambda>t. task_id t = j) (bg_tasks h) = Some task" by blast
  have t: "bg_tasks h ! j = task" by (rule task_ids_unique[OF d found m id])
  show ?thesis
  proof (cases rule: UploadHelper_run_task_cases[of j h])
    case idle
    then show ?thesis using found t by simp
  qed (insert find_task_member[OF found] t j, simp_all add: update_task_nth task_stage_def found)
qed

lemma UploadHelper_run_task_ids:
  "map task_id (bg_tasks h) = [0..<length (bg_tasks h)] \<Longrightarrow>
   map task_id (bg_tasks (UploadHelper_run_task i h)) = [0..<length (bg_tasks (UploadHelper_run_task i h))]"
  using UploadHelper_run_task_frame[of i h] by simp

lemma UploadHelper_run_task_thrice_finishes:
  assumes ids: "map task_id (bg_tasks h) = [0..<length (bg_tasks h)]" and j: "j < length (bg_tasks h)"
  shows "is_finished (bg_tasks (UploadHelper_run_task j (UploadHelper_run_task j
            (UploadHelper_run_task j h))) ! j)"
proof -
  define h1 where "h1 = UploadHelper_run_task j h"
  define h2 where "h2 = UploadHelper_run_task j h1"
  define h3 where "h3 = UploadHelper_run_task j h2"
  have ids1: "map task_id (bg_tasks h1) = [0..<length (bg_tasks h1)]"
    unfolding h1_def by (rule UploadHelper_run_task_ids[OF ids])
  have ids2: "map task_id (bg_tasks h2) = [0..<length (bg_tasks h2)]"
    unfolding h2_def by (rule UploadHelper_run_task_ids[OF ids1])
  have j1: "j < length (bg_tasks h1)" using j by (simp add: h1_def)
  have j2: "j < length (bg_tasks h2)" using j1 by (simp add: h2_def)
  have m1: "is_finished (bg_tasks h1 ! j) \<or> task_stage (bg_tasks h ! j) < task_stage (bg_tasks h1 ! j)"
    unfolding h1_def by (rule UploadHelper_run_task_moves[OF ids j])
  have m2: "is_finished (bg_tasks h2 ! j) \<or> task_stage (bg_tasks h1 ! j) < task_stage (bg_tasks h2 ! j)"
    unfolding h2_def by (rule UploadHelper_run_task_moves[OF ids1 j1])
  have m3: "is_finished (bg_tasks h3 ! j) \<or> task_stage (bg_tasks h2 ! j) < task_stage (bg_tasks h3 ! j)"
    unfolding h3_def by (rule UploadHelper_run_task_moves[OF ids2 j2])
  have k2: "is_finished (bg_tasks h1 ! j) \<Longrightarrow> is_finished (bg_tasks h2 ! j)"
    unfolding h2_def by (rule UploadHelper_run_task_keeps_finished[OF j1])
  have k3: "is_finished (bg_tasks h2 ! j) \<Longrightarrow> is_finished (bg_tasks h3 ! j)"
    unfolding h3_def by (rule UploadHelper_run_task_keeps_finished[OF j2])
  have "is_finished (bg_tasks h3 ! j)"
  proof (rule ccontr)
    assume n3: "\<not> is_finished (bg_tasks h3 ! j)"
    then have n2: "\<not> is_finished (bg_tasks h2 ! j)" using k3 by blast
    then have n1: "\<not> is_finished (bg_tasks h1 ! j)" using k2 by blast
    from m1 m2 m3 n1 n2 n3
    have "task_stage (bg_tasks h ! j) + 3 \<le> task_stage (bg_tasks h3 ! j)" by linarith
    then show False using task_stage_le[of "bg_tasks h3 ! j"] by linarith
  qed
  then show ?thesis by (simp add: h3_def h2_def h1_def)
qed

text \<open>The wait: when it returns every task has finished.\<close>

lemma UploadHelper_fold3_finishes:
  assumes "map task_id (bg_tasks h) = [0..<length (bg_tasks h)]"
    and "\<forall>t \<in> set ts. task_id t < length (bg_tasks h)"
  shows "length (bg_tasks (fold (\<lambda>t s. UploadHelper_run_task (task_id t)
                      (UploadHelper_run_task (task_id t) (UploadHelper_run_task (task_id t) s))) ts h))
           = length (bg_tasks h)
       \<and> (\<forall>j < length (bg_tasks h). j \<in> task_id ` set ts \<or> is_finished (bg_tasks h ! j) \<longrightarrow>
            is_finished (bg_tasks (fold (\<lambda>t s. UploadHelper_run_task (task_id t)
                      (UploadHelper_run_task (task_id t) (UploadHelper_run_task (task_id t) s))) ts h) ! j))"
  using assms
proof (induction ts arbitrary: h)
  case Nil
  then show ?case by simp
next
  case (Cons t ts)
  define i where "i = task_id t"
  define h1 where "h1 = UploadHelper_run_task i (UploadHelper_run_task i (UploadHelper_run_task i h))"
  define h2 where "h2 = fold (\<lambda>t s. UploadHelper_run_task (task_id t)
                      (UploadHelper_run_task (task_id t) (UploadHelper_run_task (task_id t) s))) ts h1"
  have unfold: "fold (\<lambda>t s. UploadHelper_run_task (task_id t)
                      (UploadHelper_run_task (task_id t) (UploadHelper_run_task (task_id t) s))) (t # ts) h = h2"
    by (simp add: h2_def h1_def i_def)
  have len: "length (bg_tasks h1) = length (bg_tasks h)" unfolding h1_def by simp
  have ids1: "map task_id (bg_tasks h1) = [0..<length (bg_tasks h1)]"
    unfolding h1_def by (intro UploadHelper_run_task_ids Cons.prems(1))
  have i: "i < length (bg_tasks h)" using Cons.prems(2) by (simp add: i_def)
  have ts: "\<forall>t \<in> set ts. task_id t < length (bg_tasks h1)" using Cons.prems(2) len by simp
  from Cons.IH[OF ids1 ts]
  have IH1: "length (bg_tasks h2) = length (bg_tasks h1)"
    and IH2: "\<And>j. j < length (bg_tasks h1) \<Longrightarrow> j \<in> task_id ` set ts \<or> is_finished (bg_tasks h1 ! j)
        \<Longrightarrow> is_finished (bg_tasks h2 ! j)"
    unfolding h2_def by blast+
  have done_i: "is_finished (bg_tasks h1 ! i)"
    unfolding h1_def by (rule UploadHelper_run_task_thrice_finishes[OF Cons.prems(1) i])
  have keep: "is_finished (bg_tasks h1 ! j)" if "j < length (bg_tasks h)" "is_finished (bg_tasks h ! j)" for j
  proof -
    have a: "is_finished (bg_tasks (UploadHelper_run_task i h) ! j)"
      by (rule UploadHelper_run_task_keeps_finished[OF that])
    have la: "j < length (bg_tasks (UploadHelper_run_task i h))" using that(1) by simp
    have b: "is_finished (bg_tasks (UploadHelper_run_task i (UploadHelper_run_task i h)) ! j)"
      by (rule UploadHelper_run_task_keeps_finished[OF la a])
    have lb: "j < length (bg_tasks (UploadHelper_run_task i (UploadHelper_run_task i h)))"
      using that(1) by simp
    show ?thesis unfolding h1_def by (rule UploadHelper_run_task_keeps_finished[OF lb b])
  qed
  have "is_finished (bg_tasks h2 ! j)"
    if j: "j < length (bg_tasks h)" and c: "j \<in> task_id ` set (t # ts) \<or> is_finished (bg_tasks h ! j)" for j
  proof -
    from c consider "j = i" | "j \<in> task_id ` set ts" | "is_finished (bg_tasks h ! j)"
      by (auto simp: i_def)
    then have "j \<in> task_id ` set ts \<or> is_finished (bg_tasks h1 ! j)"
    proof cases
      case 1
      then show ?thesis using done_i by simp
    next
      case 2
      then show ?thesis by simp
    next
      case 3
      then show ?thesis using keep[OF j] by simp
    qed
    then show ?thesis using IH2[of j] j len by simp
  qed
  then show ?case unfolding unfold using IH1 len by simp
qed

lemma UploadHelper_wait_finished_all:
  assumes "map task_id (bg_tasks h) = [0..<length (bg_tasks h)]"
  shows "\<forall>t \<in> set (bg_tasks (UploadHelper_wait_finished h)). is_finished t"
proof -
  define h1 where "h1 = pool_runs UploadHelper_run_task h"
  define h2 where "h2 = fold (\<lambda>t s. UploadHelper_run_task (task_id t)
                      (UploadHelper_run_task (task_id t) (UploadHelper_run_task (task_id t) s)))
      (bg_tasks h1) h1"
  have w: "UploadHelper_wait_finished h = h2"
    by (simp add: UploadHelper_wait_finished_def Let_def h2_def h1_def)
  have ids1: "map task_id (bg_tasks h1) = [0..<length (bg_tasks h1)]"
    unfolding h1_def using UploadHelper_pool_runs_frame[of h] assms by simp
  have ids: "task_id (bg_tasks h1 ! j) = j" if "j < length (bg_tasks h1)" for j
    using ids1 that by (metis nth_map nth_upt add_0)
  have b: "\<forall>t \<in> set (bg_tasks h1). task_id t < length (bg_tasks h1)"
  proof
    fix t assume "t \<in> set (bg_tasks h1)"
    then obtain j where "j < length (bg_tasks h1)" "bg_tasks h1 ! j = t"
      unfolding in_set_conv_nth by blast
    then show "task_id t < length (bg_tasks h1)" using ids[of j] by simp
  qed
  from UploadHelper_fold3_finishes[OF ids1 b]
  have f1: "length (bg_tasks h2) = length (bg_tasks h1)"
    and f2: "\<And>j. j < length (bg_tasks h1) \<Longrightarrow> j \<in> task_id ` set (bg_tasks h1)
        \<Longrightarrow> is_finished (bg_tasks h2 ! j)"
    unfolding h2_def by blast+
  show ?thesis
    unfolding w
  proof
    fix t assume "t \<in> set (bg_tasks h2)"
    then obtain j where j: "j < length (bg_tasks h2)" "bg_tasks h2 ! j = t"
      unfolding in_set_conv_nth by blast
    then have j': "j < length (bg_tasks h1)" using f1 by simp
    then have "bg_tasks h1 ! j \<in> set (bg_tasks h1)" by simp
    then have "task_id (bg_tasks h1 ! j) \<in> task_id ` set (bg_tasks h1)" by (rule imageI)
    then have "j \<in> task_id ` set (bg_tasks h1)" using ids[OF j'] by simp
    from f2[OF j' this] show "is_finished t" using j(2) by simp
  qed
qed


section \<open>Aborting a multipart upload after a failed part\<close>

lemma is_abort_not_failed: "is_abort c \<Longrightarrow> \<not> failed_part c"
  by (cases c, cases "fst c") (auto simp: is_abort_def failed_part_def)

lemma abort_follows_snoc:
  "abort_follows (cs @ [c]) = (is_abort c \<or> (abort_follows cs \<and> \<not> failed_part c))"
proof (induction cs)
  case Nil
  show ?case using is_abort_not_failed[of c] by auto
next
  case (Cons a cs)
  show ?case using Cons is_abort_not_failed[of c] by auto
qed

lemma abort_follows_append:
  "abort_follows cs \<Longrightarrow> \<forall>c \<in> set cs'. \<not> failed_part c \<Longrightarrow> abort_follows (cs @ cs')"
proof (induction cs' arbitrary: cs)
  case Nil
  then show ?case by simp
next
  case (Cons c cs')
  from Cons.prems have "abort_follows (cs @ [c])" by (simp add: abort_follows_snoc)
  from Cons.IH[OF this] Cons.prems(2) show ?case by simp
qed

lemma part_failed_append: "part_failed (cs @ cs') = (part_failed cs \<or> part_failed cs')"
  by (auto simp: part_failed_def)

lemma part_failed_simps:
  "part_failed [] = False" "part_failed [c] = failed_part c"
  by (simp_all add: part_failed_def)

lemma no_part_failed_abort_follows: "\<not> part_failed cs \<Longrightarrow> abort_follows cs"
  by (induction cs) (simp_all add: part_failed_def)

lemma abort_follows_has_abort:
  "abort_follows cs \<Longrightarrow> part_failed cs \<Longrightarrow> \<exists>c \<in> set cs. is_abort c"
  by (induction cs) (auto simp: part_failed_def)

lemma success_not_failed_part: "\<not> failed_part (r, Success x)"
  by (cases r) (simp_all add: failed_part_def)

lemma is_abort_abort: "is_abort (AbortMultipartUploadRequest upload_id, out)"
  by (simp add: is_abort_def)

text \<open>The steps of the tasks keep the tasks in order.\<close>

lemma UploadHelper_tasks_ok_run_task:
  assumes "UploadHelper_tasks_ok h"
  shows "UploadHelper_tasks_ok (UploadHelper_run_task i h)"
proof -
  note f = UploadHelper_run_task_frame[of i h]
  have len: "length (bg_tasks (UploadHelper_run_task i h)) = length (bg_tasks h)" by simp
  have r: "\<forall>t \<in> set (bg_tasks (UploadHelper_run_task i h)). req t \<noteq> None"
  proof -
    have "set (map req (bg_tasks (UploadHelper_run_task i h))) = set (map req (bg_tasks h))"
      using f by simp
    moreover have "None \<notin> set (map req (bg_tasks h))"
      using assms by (auto simp: UploadHelper_tasks_ok_def)
    ultimately have "None \<notin> req ` set (bg_tasks (UploadHelper_run_task i h))" by simp
    then show ?thesis by (metis imageI)
  qed
  have s: "\<forall>t \<in> set (bg_tasks (UploadHelper_run_task i h)). failed t \<noteq> None \<longrightarrow> started t"
  proof -
    from assms have o: "\<forall>t \<in> set (bg_tasks h). failed t \<noteq> None \<longrightarrow> started t"
      by (simp add: UploadHelper_tasks_ok_def)
    show ?thesis
    proof (cases rule: UploadHelper_run_task_cases[of i h])
      case (refused task request err)
      have "started t" if "t \<in> set (bg_tasks h)" "task_id t = i" for t
      proof -
        have "distinct (map task_id (bg_tasks h))"
          using assms by (simp add: UploadHelper_tasks_ok_def)
        from task_ids_unique[OF this refused(1) that] refused(3) show ?thesis by simp
      qed
      then show ?thesis using o refused(7) by (auto simp: update_task_set)
    qed (use o in \<open>auto simp: update_task_set\<close>)
  qed
  show ?thesis
    using assms f r s len by (auto simp: UploadHelper_tasks_ok_def)
qed

lemma update_task_keeps:
  assumes "\<And>t. t \<in> set ts \<Longrightarrow> task_id t = i \<Longrightarrow> t = task"
    and "P task \<longrightarrow> P (f task)" and "\<exists>t \<in> set ts. P t"
  shows "\<exists>t \<in> set (update_task i f ts). P t"
proof -
  from assms(3) obtain t where t: "t \<in> set ts" "P t" by blast
  have "(if task_id t = i then f t else t) \<in> set (update_task i f ts)"
    using t(1) by (simp add: update_task_set)
  moreover have "P (if task_id t = i then f t else t)"
    using t assms(1)[OF t(1)] assms(2) by auto
  ultimately show ?thesis by blast
qed

lemma update_task_gains:
  assumes "task \<in> set ts" and "task_id task = i" and "P (f task)"
  shows "\<exists>t \<in> set (update_task i f ts). P t"
proof -
  have "f task \<in> set (update_task i f ts)" using assms(1,2) by (force simp: update_task_set)
  then show ?thesis using assms(3) by blast
qed

lemma UploadHelper_abort_inv_run_task:
  assumes "UploadHelper_abort_inv h"
  shows "UploadHelper_abort_inv (UploadHelper_run_task i h)"
proof -
  from assms have ok: "UploadHelper_tasks_ok h"
    and O: "\<not> abort_follows (calls h) \<longrightarrow> (\<exists>t \<in> set (bg_tasks h). owes_abort t)"
    and F: "part_failed (calls h) \<longrightarrow> (\<exists>t \<in> set (bg_tasks h). exception t \<noteq> None \<or> owes_abort t)"
    by (simp_all add: UploadHelper_abort_inv_def)
  note ok' = UploadHelper_tasks_ok_run_task[OF ok, of i]
  have d: "distinct (map task_id (bg_tasks h))" using ok by (simp add: UploadHelper_tasks_ok_def)
  show ?thesis
  proof (cases rule: UploadHelper_run_task_cases[of i h])
    case idle
    then show ?thesis using assms by simp
  next
    case (skip task)
    note u = task_ids_unique[OF d skip(1)]
    have "failed task = None"
      using ok find_task_member[OF skip(1)] skip(3) by (auto simp: UploadHelper_tasks_ok_def)
    then have n: "\<not> owes_abort task" by (simp add: owes_abort_def)
    let ?f = "\<lambda>t. t\<lparr>is_finished := True\<rparr>"
    have "\<not> abort_follows (calls h) \<longrightarrow> (\<exists>t \<in> set (update_task i ?f (bg_tasks h)). owes_abort t)"
      using O update_task_keeps[of "bg_tasks h" i task owes_abort ?f, OF u] n by blast
    moreover have "part_failed (calls h) \<longrightarrow>
        (\<exists>t \<in> set (update_task i ?f (bg_tasks h)). exception t \<noteq> None \<or> owes_abort t)"
      using F update_task_keeps[of "bg_tasks h" i task "\<lambda>t. exception t \<noteq> None \<or> owes_abort t" ?f, OF u] n
      by auto
    ultimately show ?thesis using ok' skip(5) by (simp add: UploadHelper_abort_inv_def)
  next
    case (start task)
    note u = task_ids_unique[OF d start(1)]
    let ?f = "\<lambda>t. t\<lparr>started := True\<rparr>"
    have "\<not> abort_follows (calls h) \<longrightarrow> (\<exists>t \<in> set (update_task i ?f (bg_tasks h)). owes_abort t)"
      using O update_task_keeps[of "bg_tasks h" i task owes_abort ?f, OF u]
      by (auto simp: owes_abort_def)
    moreover have "part_failed (calls h) \<longrightarrow>
        (\<exists>t \<in> set (update_task i ?f (bg_tasks h)). exception t \<noteq> None \<or> owes_abort t)"
      using F update_task_keeps[of "bg_tasks h" i task "\<lambda>t. exception t \<noteq> None \<or> owes_abort t" ?f, OF u]
      by (auto simp: owes_abort_def)
    ultimately show ?thesis using ok' start(5) by (simp add: UploadHelper_abort_inv_def)
  next
    case (no_request task)
    then show ?thesis
      using ok find_task_member[OF no_request(1)] by (auto simp: UploadHelper_tasks_ok_def)
  next
    case (accepted task request etag)
    note u = task_ids_unique[OF d accepted(1)]
    have n: "\<not> owes_abort task" using accepted(5) by (simp add: owes_abort_def)
    let ?f = "\<lambda>t. t\<lparr>tag := etag, is_finished := True\<rparr>"
    let ?cs = "calls h @ [(request, Success etag)]"
    have a: "abort_follows (calls h) \<longrightarrow> abort_follows ?cs"
      by (simp add: abort_follows_snoc success_not_failed_part)
    have p: "part_failed ?cs = part_failed (calls h)"
      by (simp add: part_failed_append part_failed_simps success_not_failed_part)
    have "\<not> abort_follows ?cs \<longrightarrow> (\<exists>t \<in> set (update_task i ?f (bg_tasks h)). owes_abort t)"
      using O a update_task_keeps[of "bg_tasks h" i task owes_abort ?f, OF u] n by blast
    moreover have "part_failed ?cs \<longrightarrow>
        (\<exists>t \<in> set (update_task i ?f (bg_tasks h)). exception t \<noteq> None \<or> owes_abort t)"
      unfolding p
      using F update_task_keeps[of "bg_tasks h" i task "\<lambda>t. exception t \<noteq> None \<or> owes_abort t" ?f, OF u] n
      by auto
    ultimately show ?thesis using ok' accepted(7) by (simp add: UploadHelper_abort_inv_def)
  next
    case (refused task request err)
    note m = find_task_member[OF refused(1)]
    let ?f = "\<lambda>t. t\<lparr>failed := Some err\<rparr>"
    have "owes_abort (?f task)" using refused(2) by (simp add: owes_abort_def)
    from update_task_gains[of task "bg_tasks h" i owes_abort ?f, OF _ _ this] m
    have "\<exists>t \<in> set (update_task i ?f (bg_tasks h)). owes_abort t" by simp
    then show ?thesis using ok' refused(7) by (auto simp: UploadHelper_abort_inv_def)
  next
    case (abort task request err out e)
    note m = find_task_member[OF abort(1)]
    let ?f = "\<lambda>t. t\<lparr>exception := Some e, is_finished := True\<rparr>"
    have "exception (?f task) \<noteq> None \<or> owes_abort (?f task)" by simp
    from update_task_gains[of task "bg_tasks h" i "\<lambda>t. exception t \<noteq> None \<or> owes_abort t" ?f, OF _ _ this] m
    have "\<exists>t \<in> set (update_task i ?f (bg_tasks h)). exception t \<noteq> None \<or> owes_abort t" by simp
    then show ?thesis using ok' abort(6)
      by (simp add: UploadHelper_abort_inv_def abort_follows_snoc is_abort_abort)
  qed
qed

lemma UploadHelper_abort_inv_fold:
  "UploadHelper_abort_inv h \<Longrightarrow> UploadHelper_abort_inv (fold UploadHelper_run_task steps h)"
  by (induction steps arbitrary: h) (simp_all add: UploadHelper_abort_inv_run_task)

lemma UploadHelper_abort_inv_ticks:
  "UploadHelper_abort_inv (h\<lparr>ticks := t\<rparr>) = UploadHelper_abort_inv h"
  by (simp add: UploadHelper_abort_inv_def UploadHelper_tasks_ok_def)

lemma UploadHelper_abort_inv_pool_runs:
  "UploadHelper_abort_inv h \<Longrightarrow> UploadHelper_abort_inv (pool_runs UploadHelper_run_task h)"
  by (simp add: pool_runs_def UploadHelper_abort_inv_fold UploadHelper_abort_inv_ticks
      split: option.splits)

lemma UploadHelper_abort_inv_fold3:
  "UploadHelper_abort_inv h \<Longrightarrow>
   UploadHelper_abort_inv
     (fold (\<lambda>t s. UploadHelper_run_task (task_id t)
              (UploadHelper_run_task (task_id t) (UploadHelper_run_task (task_id t) s))) ts h)"
  by (induction ts arbitrary: h) (simp_all add: UploadHelper_abort_inv_run_task)

lemma UploadHelper_abort_inv_wait_finished:
  "UploadHelper_abort_inv h \<Longrightarrow> UploadHelper_abort_inv (UploadHelper_wait_finished h)"
  by (simp add: UploadHelper_wait_finished_def Let_def UploadHelper_abort_inv_fold3
      UploadHelper_abort_inv_pool_runs)

text \<open>When the wait returns, every failed part has had its abort, and its exception is in a
  task.\<close>

lemma UploadHelper_wait_finished_aborted:
  assumes "UploadHelper_abort_inv h"
  shows "abort_follows (calls (UploadHelper_wait_finished h))
       \<and> (part_failed (calls (UploadHelper_wait_finished h)) \<longrightarrow>
            (\<exists>t \<in> set (bg_tasks (UploadHelper_wait_finished h)). exception t \<noteq> None))"
proof -
  note inv = UploadHelper_abort_inv_wait_finished[OF assms]
  from assms have "map task_id (bg_tasks h) = [0..<length (bg_tasks h)]"
    by (simp add: UploadHelper_abort_inv_def UploadHelper_tasks_ok_def)
  from UploadHelper_wait_finished_all[OF this]
  have "\<forall>t \<in> set (bg_tasks (UploadHelper_wait_finished h)). \<not> owes_abort t"
    by (simp add: owes_abort_def)
  then show ?thesis using inv by (auto simp: UploadHelper_abort_inv_def)
qed

lemma UploadHelper_fillUploadPartRequest_frame:
  "UploadHelper_fillUploadPartRequest number part_offset part_size (h\<lparr>bg_tasks := b\<rparr>)
     = UploadHelper_fillUploadPartRequest number part_offset part_size h"
  "UploadHelper_fillUploadPartRequest number part_offset part_size (h\<lparr>num_added_bg_tasks := k\<rparr>)
     = UploadHelper_fillUploadPartRequest number part_offset part_size h"
  by (simp_all add: UploadHelper_fillUploadPartRequest_def split: helper_class.splits)

text \<open>Scheduling a part: the new task is the last of the list, with its request.\<close>

lemma UploadHelper_schedule_task:
  assumes "map task_id ts = [0..<length ts]"
  shows "update_task (length ts) (\<lambda>t. t\<lparr>req := Some request\<rparr>) (ts @ [new_task (length ts)])
       = ts @ [(new_task (length ts))\<lparr>req := Some request\<rparr>]"
proof -
  have "task_id t \<noteq> length ts" if "t \<in> set ts" for t
  proof -
    from that have "task_id t \<in> set (map task_id ts)" by simp
    then show ?thesis unfolding assms by simp
  qed
  then have "update_task (length ts) (\<lambda>t. t\<lparr>req := Some request\<rparr>) ts = ts"
    by (simp add: update_task_def map_idI)
  then show ?thesis by (simp add: update_task_def new_task_def)
qed

lemma UploadHelper_tasks_ok_schedule:
  assumes "UploadHelper_tasks_ok h" and "schedule h \<noteq> None"
  shows "UploadHelper_tasks_ok
           (h\<lparr>num_added_bg_tasks := num_added_bg_tasks h + 1,
              bg_tasks := bg_tasks h @ [(new_task (length (bg_tasks h)))\<lparr>req := Some request\<rparr>]\<rparr>)"
  using assms by (auto simp: UploadHelper_tasks_ok_def new_task_def)

lemma UploadHelper_uploadPart_pool:
  assumes "UploadHelper_tasks_ok h" and "schedule h \<noteq> None" and "part_size \<noteq> 0"
  shows "UploadHelper_uploadPart number part_offset part_size h
       = Returned () (pool_runs UploadHelper_run_task
           (h\<lparr>num_added_bg_tasks := num_added_bg_tasks h + 1,
              bg_tasks := bg_tasks h @ [(new_task (length (bg_tasks h)))
                \<lparr>req := Some (UploadHelper_fillUploadPartRequest number part_offset part_size h)\<rparr>]\<rparr>))"
proof -
  from assms(1) have n: "nat (num_added_bg_tasks h) = length (bg_tasks h)"
    and ids: "map task_id (bg_tasks h) = [0..<length (bg_tasks h)]"
    by (simp_all add: UploadHelper_tasks_ok_def)
  show ?thesis
    using assms(2,3) UploadHelper_schedule_task[OF ids]
    by (simp add: UploadHelper_uploadPart_def Let_def n UploadHelper_fillUploadPartRequest_frame)
qed

lemma UploadHelper_abort_inv_uploadPart:
  assumes "UploadHelper_abort_inv h"
  shows "(returned (UploadHelper_uploadPart number part_offset part_size h)
            \<longrightarrow> UploadHelper_abort_inv (final_state (UploadHelper_uploadPart number part_offset part_size h)))
       \<and> (\<not> returned (UploadHelper_uploadPart number part_offset part_size h)
            \<longrightarrow> abort_follows (calls (final_state (UploadHelper_uploadPart number part_offset part_size h))))"
proof (cases "part_size = 0")
  case True
  then show ?thesis using assms by (simp add: UploadHelper_uploadPart_def)
next
  case nz: False
  from assms have ok: "UploadHelper_tasks_ok h" by (simp add: UploadHelper_abort_inv_def)
  show ?thesis
  proof (cases "schedule h")
    case (Some pool)
    then have s: "schedule h \<noteq> None" by simp
    let ?t = "(new_task (length (bg_tasks h)))
                \<lparr>req := Some (UploadHelper_fillUploadPartRequest number part_offset part_size h)\<rparr>"
    let ?h2 = "h\<lparr>num_added_bg_tasks := num_added_bg_tasks h + 1, bg_tasks := bg_tasks h @ [?t]\<rparr>"
    have "UploadHelper_abort_inv ?h2"
      using assms UploadHelper_tasks_ok_schedule[OF ok s] by (auto simp: UploadHelper_abort_inv_def)
    from UploadHelper_abort_inv_pool_runs[OF this] show ?thesis
      by (simp add: UploadHelper_uploadPart_pool[OF ok s nz])
  next
    case None
    then have nt: "bg_tasks h = []" using ok by (simp add: UploadHelper_tasks_ok_def)
    then have np: "\<not> part_failed (calls h)" "abort_follows (calls h)"
      using assms by (auto simp: UploadHelper_abort_inv_def)
    let ?r = "UploadHelper_fillUploadPartRequest number part_offset part_size h"
    show ?thesis
    proof (cases "multipart_upload_aborted h")
      case True
      then show ?thesis using nz None assms nt np
        by (simp add: UploadHelper_uploadPart_def Let_def UploadHelper_processUploadTask_def
            andThen_def UploadHelper_abort_inv_def UploadHelper_tasks_ok_def)
    next
      case False
      note c = UploadHelper_processUploadPartRequest_cases[of ?r h, OF refl]
      show ?thesis
      proof (cases "UploadHelper_processUploadPartRequest ?r h")
        case (Returned etag h')
        then have "h' = h\<lparr>calls := calls h @ [(?r, Success etag)]\<rparr>" using c by simp
        then show ?thesis using nz None False Returned assms nt np
          by (simp add: UploadHelper_uploadPart_def Let_def UploadHelper_processUploadTask_def
              andThen_def UploadHelper_abort_inv_def UploadHelper_tasks_ok_def new_task_def
              abort_follows_snoc success_not_failed_part part_failed_append part_failed_simps)
      next
        case (Thrown e h')
        then obtain err out where "h' = h\<lparr>calls := calls h @ [(?r, Failure err),
                (AbortMultipartUploadRequest (multipart_upload_id h), out)],
              multipart_upload_aborted := True\<rparr>" using c by auto
        then have "calls h' = (calls h @ [(?r, Failure err)])
              @ [(AbortMultipartUploadRequest (multipart_upload_id h), out)]" by simp
        then have "abort_follows (calls h')"
          by (simp only: abort_follows_snoc is_abort_abort simp_thms)
        then show ?thesis using nz None False Thrown
          by (simp add: UploadHelper_uploadPart_def Let_def UploadHelper_processUploadTask_def
              andThen_def new_task_def)
      qed
    qed
  qed
qed

lemma UploadHelper_abort_inv_loop:
  assumes "UploadHelper_performMultipartUpload_loop number position end_position h = Some r"
    and "UploadHelper_abort_inv h"
  shows "(returned r \<longrightarrow> UploadHelper_abort_inv (final_state r))
       \<and> (\<not> returned r \<longrightarrow> abort_follows (calls (final_state r)))"
proof -
  have "UploadHelper_abort_inv h \<longrightarrow>
     (returned r \<longrightarrow> UploadHelper_abort_inv (final_state r))
       \<and> (\<not> returned r \<longrightarrow> abort_follows (calls (final_state r)))"
  proof (rule UploadHelper_performMultipartUpload_loop.raw_induct[
        where P = "\<lambda>number position end_position h r. UploadHelper_abort_inv h \<longrightarrow>
          (returned r \<longrightarrow> UploadHelper_abort_inv (final_state r))
            \<and> (\<not> returned r \<longrightarrow> abort_follows (calls (final_state r)))", OF _ assms(1)],
      intro impI)
    fix loop number position end_position h r
    assume IH: "\<And>number position end_position h r.
        loop number position end_position h = Some r \<Longrightarrow>
        UploadHelper_abort_inv h \<longrightarrow>
          (returned r \<longrightarrow> UploadHelper_abort_inv (final_state r))
            \<and> (\<not> returned r \<longrightarrow> abort_follows (calls (final_state r)))"
      and body: "(if position < end_position
         then if multipart_upload_aborted h then Some (Returned () h)
              else let next_position = min (position + normal_part_size h) end_position;
                       part_size = next_position - position
                   in case UploadHelper_uploadPart number position part_size h of
                        Returned x h' \<Rightarrow> loop (number + 1) next_position end_position h'
                      | Thrown e h' \<Rightarrow> Some (Thrown e h')
         else Some (Returned () h)) = Some r"
      and inv: "UploadHelper_abort_inv h"
    show "(returned r \<longrightarrow> UploadHelper_abort_inv (final_state r))
            \<and> (\<not> returned r \<longrightarrow> abort_follows (calls (final_state r)))"
    proof (cases "position < end_position \<and> \<not> multipart_upload_aborted h")
      case False
      then have "r = Returned () h" using body by (auto split: if_splits)
      then show ?thesis using inv by simp
    next
      case True
      let ?next = "min (position + normal_part_size h) end_position"
      let ?u = "UploadHelper_uploadPart number position (?next - position) h"
      note up = UploadHelper_abort_inv_uploadPart[OF inv, of number position "?next - position"]
      show ?thesis
      proof (cases ?u)
        case (Thrown e h')
        then have "r = Thrown e h'" using body True by (simp add: Let_def)
        then show ?thesis using up Thrown by simp
      next
        case (Returned x h')
        then have "loop (number + 1) ?next end_position h' = Some r"
          using body True by (simp add: Let_def)
        from IH[OF this] up Returned show ?thesis by auto
      qed
    qed
  qed
  then show ?thesis using assms(2) by simp
qed

lemma UploadHelper_collect_tasks_abort:
  "abort_follows (calls h) \<Longrightarrow>
   abort_follows (calls (final_state (UploadHelper_collect_tasks ts h)))
   \<and> (returned (UploadHelper_collect_tasks ts h) \<longrightarrow>
        (\<forall>t \<in> set ts. exception t = None)
        \<and> calls (final_state (UploadHelper_collect_tasks ts h)) = calls h
        \<and> bg_tasks (final_state (UploadHelper_collect_tasks ts h)) = bg_tasks h
        \<and> num_added_bg_tasks (final_state (UploadHelper_collect_tasks ts h)) = num_added_bg_tasks h
        \<and> schedule (final_state (UploadHelper_collect_tasks ts h)) = schedule h)"
proof (induction ts arbitrary: h)
  case Nil
  then show ?case by simp
next
  case (Cons t ts)
  show ?case
  proof (cases "exception t")
    case None
    from Cons.IH[of "h\<lparr>part_tags := part_tags h @ [tag t]\<rparr>"] Cons.prems None
    show ?thesis by simp
  next
    case (Some e)
    obtain out where "UploadHelper_abortMultipartUpload h
     = h\<lparr>calls := calls h @ [(AbortMultipartUploadRequest (multipart_upload_id h), out)],
         multipart_upload_aborted := True\<rparr>"
      using UploadHelper_abortMultipartUpload_calls by blast
    then show ?thesis using Some Cons.prems
      by (simp add: abort_follows_snoc is_abort_abort)
  qed
qed

lemma UploadHelper_no_failure_abort_follows:
  "UploadHelper_no_failure h \<Longrightarrow> abort_follows (calls h)"
  by (simp add: UploadHelper_no_failure_def no_part_failed_abort_follows)

lemma UploadHelper_no_failure_inv: "UploadHelper_no_failure h \<Longrightarrow> UploadHelper_abort_inv h"
  by (simp add: UploadHelper_no_failure_def UploadHelper_abort_inv_def no_part_failed_abort_follows)

lemma UploadHelper_waitForAllBackGroundTasks_abort:
  assumes "UploadHelper_abort_inv h"
  shows "abort_follows (calls (final_state (UploadHelper_waitForAllBackGroundTasks h)))
     \<and> (returned (UploadHelper_waitForAllBackGroundTasks h)
          \<longrightarrow> UploadHelper_no_failure (final_state (UploadHelper_waitForAllBackGroundTasks h)))"
proof (cases "schedule h = None")
  case True
  then show ?thesis using assms
    by (auto simp: UploadHelper_waitForAllBackGroundTasks_def UploadHelper_abort_inv_def
        UploadHelper_no_failure_def UploadHelper_tasks_ok_def)
next
  case False
  define h1 where "h1 = UploadHelper_wait_finished h"
  have i: "UploadHelper_abort_inv h1"
    unfolding h1_def by (rule UploadHelper_abort_inv_wait_finished[OF assms])
  have a: "abort_follows (calls h1)"
    and e: "part_failed (calls h1) \<longrightarrow> (\<exists>t \<in> set (bg_tasks h1). exception t \<noteq> None)"
    unfolding h1_def using UploadHelper_wait_finished_aborted[OF assms] by simp_all
  have w: "UploadHelper_waitForAllBackGroundTasks h = UploadHelper_collect_tasks (bg_tasks h1) h1"
    using False by (auto simp: UploadHelper_waitForAllBackGroundTasks_def Let_def h1_def)
  define r where "r = UploadHelper_collect_tasks (bg_tasks h1) h1"
  note c = UploadHelper_collect_tasks_abort[OF a, of "bg_tasks h1", folded r_def]
  have "UploadHelper_no_failure (final_state r)" if "returned r"
  proof -
    from c that have n: "\<forall>t \<in> set (bg_tasks h1). exception t = None"
      and f: "calls (final_state r) = calls h1" "bg_tasks (final_state r) = bg_tasks h1"
        "num_added_bg_tasks (final_state r) = num_added_bg_tasks h1"
        "schedule (final_state r) = schedule h1" by simp_all
    from n e have "\<not> part_failed (calls h1)" by auto
    moreover have "UploadHelper_tasks_ok (final_state r)"
      using i f by (simp add: UploadHelper_abort_inv_def UploadHelper_tasks_ok_def)
    ultimately show ?thesis using f by (simp add: UploadHelper_no_failure_def)
  qed
  then show ?thesis using c by (simp add: w r_def)
qed

lemma UploadHelper_complete_loop_calls:
  "\<exists>cs. final_state (UploadHelper_completeMultipartUpload_loop request max_retries retries h)
          = h\<lparr>calls := calls h @ cs\<rparr> \<and> (\<forall>c \<in> set cs. fst c = request)"
proof (induction request max_retries retries h rule: UploadHelper_completeMultipartUpload_loop.induct)
  case (1 request max_retries retries h)
  obtain out h' where s: "send request h = (out, h')" by (cases "send request h")
  then have h': "h' = h\<lparr>calls := calls h @ [(request, out)]\<rparr>" by (auto simp: send_def Let_def)
  show ?case
  proof (cases out)
    case (Success x)
    then have "final_state (UploadHelper_completeMultipartUpload_loop request max_retries retries h)
      = h\<lparr>calls := calls h @ [(request, out)]\<rparr>"
      using s h' by (subst UploadHelper_completeMultipartUpload_loop.simps) simp
    then show ?thesis by (intro exI[of _ "[(request, out)]"]) simp
  next
    case (Failure err)
    show ?thesis
    proof (cases "GetErrorType err = NO_SUCH_KEY \<and> retries < max_retries")
      case True
      from "1.IH"[OF s[symmetric] Failure True] obtain cs where
        cs: "final_state (UploadHelper_completeMultipartUpload_loop request max_retries (retries + 1) h')
          = h'\<lparr>calls := calls h' @ cs\<rparr>" "\<forall>c \<in> set cs. fst c = request" by blast
      have "final_state (UploadHelper_completeMultipartUpload_loop request max_retries retries h)
          = h\<lparr>calls := calls h @ ((request, out) # cs)\<rparr>"
        using s Failure True cs(1)
        by (subst UploadHelper_completeMultipartUpload_loop.simps) (simp add: h')
      then show ?thesis using cs(2) by (intro exI[of _ "(request, out) # cs"]) simp
    next
      case False
      then have "final_state (UploadHelper_completeMultipartUpload_loop request max_retries retries h)
        = h\<lparr>calls := calls h @ [(request, out)]\<rparr>"
        using s Failure h' by (subst UploadHelper_completeMultipartUpload_loop.simps) auto
      then show ?thesis by (intro exI[of _ "[(request, out)]"]) simp
    qed
  qed
qed

lemma UploadHelper_no_failure_calls_append:
  assumes "UploadHelper_no_failure h" and "\<forall>c \<in> set cs. \<not> failed_part c"
  shows "UploadHelper_no_failure (h\<lparr>calls := calls h @ cs\<rparr>)"
  using assms
  by (auto simp: UploadHelper_no_failure_def UploadHelper_tasks_ok_def part_failed_append part_failed_def)

lemma UploadHelper_completeMultipartUpload_no_failure:
  assumes "UploadHelper_no_failure h"
  shows "UploadHelper_no_failure (final_state (UploadHelper_completeMultipartUpload h))"
proof -
  let ?request = "CompleteMultipartUploadRequest (multipart_upload_id h)
                        (CompletedMultipartUpload (part_tags h))"
  obtain cs where cs: "final_state (UploadHelper_completeMultipartUpload_loop ?request
      (max (max_unexpected_write_error_retries h) 1) 1 h) = h\<lparr>calls := calls h @ cs\<rparr>"
    "\<forall>c \<in> set cs. fst c = ?request"
    using UploadHelper_complete_loop_calls by blast
  have "\<forall>c \<in> set cs. \<not> failed_part c"
    using cs(2) by (auto simp: failed_part_def split: prod.splits)
  from UploadHelper_no_failure_calls_append[OF assms this] cs(1) assms show ?thesis
    by (simp add: UploadHelper_completeMultipartUpload_def Let_def)
qed

lemma UploadHelper_calculatePartSize_no_failure:
  assumes "UploadHelper_no_failure h"
  shows "UploadHelper_no_failure (final_state (UploadHelper_calculatePartSize total_size h))"
  using assms
  by (auto simp: UploadHelper_calculatePartSize_def Let_def UploadHelper_no_failure_def
      UploadHelper_tasks_ok_def split: option.splits prod.splits)

lemma UploadHelper_createMultipartUpload_no_failure:
  assumes "UploadHelper_no_failure h"
  shows "UploadHelper_no_failure (final_state (UploadHelper_createMultipartUpload h))"
proof -
  have "\<forall>c \<in> set [(CreateMultipartUploadRequest, out)]. \<not> failed_part c" for out
    by (simp add: failed_part_def)
  from UploadHelper_no_failure_calls_append[OF assms this] show ?thesis
    by (auto simp: UploadHelper_createMultipartUpload_def send_def Let_def
        UploadHelper_no_failure_def UploadHelper_tasks_ok_def split: outcome.splits)
qed

text \<open>The outcome of a job, as far as aborts are concerned: in the log every failed part is
  followed by an abort, and a job that returns has had no failed part.\<close>

lemma UploadHelper_performMultipartUpload_abort:
  assumes "UploadHelper_performMultipartUpload start_offset total_size h = Some r"
    and "UploadHelper_no_failure h"
  shows "abort_follows (calls (final_state r))
       \<and> (returned r \<longrightarrow> UploadHelper_no_failure (final_state r))"
proof -
  note nf1 = UploadHelper_calculatePartSize_no_failure[OF assms(2), of total_size]
  show ?thesis
  proof (cases "UploadHelper_calculatePartSize total_size h")
    case (Thrown e h1)
    then show ?thesis using assms(1) nf1
      by (simp add: UploadHelper_performMultipartUpload_def andThenOpt_def UploadHelper_no_failure_abort_follows)
  next
    case r1: (Returned x1 h1)
    then have n1: "UploadHelper_no_failure h1" using nf1 by simp
    note nf2 = UploadHelper_createMultipartUpload_no_failure[OF n1]
    show ?thesis
    proof (cases "UploadHelper_createMultipartUpload h1")
      case (Thrown e h2)
      then show ?thesis using assms(1) r1 nf2
        by (simp add: UploadHelper_performMultipartUpload_def andThenOpt_def UploadHelper_no_failure_abort_follows)
    next
      case r2: (Returned x2 h2)
      then have n2: "UploadHelper_abort_inv h2" using nf2 by (simp add: UploadHelper_no_failure_inv)
      show ?thesis
      proof (cases "UploadHelper_performMultipartUpload_loop 1 start_offset (start_offset + total_size) h2")
        case None
        then show ?thesis using assms(1) r1 r2
          by (simp add: UploadHelper_performMultipartUpload_def andThenOpt_def)
      next
        case (Some r3)
        note l = UploadHelper_abort_inv_loop[OF Some n2]
        show ?thesis
        proof (cases r3)
          case (Thrown e h3)
          then have "r = Thrown e h3" using assms(1) r1 r2 Some
            by (simp add: UploadHelper_performMultipartUpload_def andThenOpt_def)
          then show ?thesis using l Thrown by simp
        next
          case r3: (Returned x3 h3)
          then have n3: "UploadHelper_abort_inv h3" using l by simp
          note w = UploadHelper_waitForAllBackGroundTasks_abort[OF n3]
          show ?thesis
          proof (cases "UploadHelper_waitForAllBackGroundTasks h3")
            case (Thrown e h4)
            then have "r = Thrown e h4" using assms(1) r1 r2 Some r3
              by (simp add: UploadHelper_performMultipartUpload_def andThenOpt_def)
            then show ?thesis using w Thrown by simp
          next
            case r4: (Returned x4 h4)
            then have n4: "UploadHelper_no_failure h4" using w by simp
            have "r = UploadHelper_completeMultipartUpload h4"
              using assms(1) r1 r2 Some r3 r4
              by (simp add: UploadHelper_performMultipartUpload_def andThenOpt_def)
            then show ?thesis
              using UploadHelper_completeMultipartUpload_no_failure[OF n4]
              by (simp add: UploadHelper_no_failure_abort_follows)
          qed
        qed
      qed
    qed
  qed
qed

lemma UploadHelper_processPutRequest_loop_abort:
  "CopyDataToFileHelper_processPutRequest_loop request max_retries retries h = Some r
    \<Longrightarrow> UploadHelper_no_failure h \<Longrightarrow> \<forall>out. \<not> failed_part (request, out)
    \<Longrightarrow> abort_follows (calls (final_state r))
       \<and> (returned r \<longrightarrow> UploadHelper_no_failure (final_state r))"
proof (induction request max_retries retries h rule: CopyDataToFileHelper_processPutRequest_loop.induct)
  case (1 request max_retries retries h)
  obtain out h' where s: "send request h = (out, h')" by (cases "send request h")
  then have h': "h' = h\<lparr>calls := calls h @ [(request, out)]\<rparr>" by (auto simp: send_def Let_def)
  have n': "UploadHelper_no_failure h'"
    unfolding h' using UploadHelper_no_failure_calls_append[OF "1.prems"(2), of "[(request, out)]"]
      "1.prems"(3) by simp
  note e = "1.prems"(1)[unfolded CopyDataToFileHelper_processPutRequest_loop.simps[of request max_retries retries h]]
  show ?case
  proof (cases out)
    case (Success x)
    then have "r = Returned () h'" using e s by simp
    then show ?thesis using n' by (simp add: UploadHelper_no_failure_abort_follows)
  next
    case (Failure err)
    show ?thesis
    proof (cases "GetExceptionName err = ''EntityTooLarge'' \<or> GetExceptionName err = ''InvalidRequest''")
      case True
      then have "UploadHelper_performMultipartUpload (offset h') (size' h') h' = Some r"
        using e s Failure by (simp add: CopyDataToFileHelper_performMultipartUpload_def)
      from UploadHelper_performMultipartUpload_abort[OF this n'] show ?thesis .
    next
      case nf: False
      show ?thesis
      proof (cases "GetErrorType err = NO_SUCH_KEY \<and> retries < max_retries")
        case True
        then have "CopyDataToFileHelper_processPutRequest_loop request max_retries (retries + 1) h' = Some r"
          using e s Failure nf by simp
        from "1.IH"[OF s[symmetric] Failure nf True this n' "1.prems"(3)] show ?thesis .
      next
        case False
        then have "r = Thrown (S3Exception (GetErrorType err)) h'"
          using e s Failure nf by auto
        then show ?thesis using n' by (simp add: UploadHelper_no_failure_abort_follows)
      qed
    qed
  qed
qed

lemma UploadHelper_processCopyRequest_loop_abort:
  "CopyFileHelper_processCopyRequest_loop request max_retries retries h = Some r
    \<Longrightarrow> UploadHelper_no_failure h \<Longrightarrow> \<forall>out. \<not> failed_part (request, out)
    \<Longrightarrow> abort_follows (calls (final_state r))
       \<and> (returned r \<longrightarrow> UploadHelper_no_failure (final_state r))"
proof (induction request max_retries retries h rule: CopyFileHelper_processCopyRequest_loop.induct)
  case (1 request max_retries retries h)
  obtain out h' where s: "send request h = (out, h')" by (cases "send request h")
  then have h': "h' = h\<lparr>calls := calls h @ [(request, out)]\<rparr>" by (auto simp: send_def Let_def)
  have n': "UploadHelper_no_failure h'"
    unfolding h' using UploadHelper_no_failure_calls_append[OF "1.prems"(2), of "[(request, out)]"]
      "1.prems"(3) by simp
  note e = "1.prems"(1)[unfolded CopyFileHelper_processCopyRequest_loop.simps[of request max_retries retries h]]
  show ?case
  proof (cases out)
    case (Success x)
    then have "r = Returned () h'" using e s by simp
    then show ?thesis using n' by (simp add: UploadHelper_no_failure_abort_follows)
  next
    case (Failure err)
    show ?thesis
    proof (cases "GetExceptionName err = ''EntityTooLarge'' \<or> GetExceptionName err = ''InvalidRequest''")
      case True
      then have "UploadHelper_performMultipartUpload (offset h') (size' h') h' = Some r"
        using e s Failure by (simp add: CopyFileHelper_performMultipartUploadCopy_def)
      from UploadHelper_performMultipartUpload_abort[OF this n'] show ?thesis .
    next
      case nf: False
      show ?thesis
      proof (cases "GetErrorType err = NO_SUCH_KEY \<and> retries < max_retries")
        case True
        then have "CopyFileHelper_processCopyRequest_loop request max_retries (retries + 1) h' = Some r"
          using e s Failure nf by simp
        from "1.IH"[OF s[symmetric] Failure nf True this n' "1.prems"(3)] show ?thesis .
      next
        case False
        then have "r = Thrown (S3Exception (GetErrorType err)) h'"
          using e s Failure nf by auto
        then show ?thesis using n' by (simp add: UploadHelper_no_failure_abort_follows)
      qed
    qed
  qed
qed

lemma UploadHelper_new_no_failure:
  "UploadHelper_no_failure (UploadHelper_new cls client offset0 size0 settings0 check0 retries0 schedule0)"
  by (simp add: UploadHelper_no_failure_def UploadHelper_tasks_ok_def UploadHelper_new_def part_failed_def)

lemma UploadHelper_checkObjectAfterUpload_no_failure:
  assumes "UploadHelper_no_failure h"
  shows "UploadHelper_no_failure (final_state (UploadHelper_checkObjectAfterUpload h))"
proof -
  have "\<forall>c \<in> set [(HeadObjectRequest, out)]. \<not> failed_part c" for out
    by (simp add: failed_part_def)
  from UploadHelper_no_failure_calls_append[OF assms this] show ?thesis
    by (auto simp: UploadHelper_checkObjectAfterUpload_def checkObjectExists_def send_def Let_def
        split: outcome.splits)
qed

lemma UploadHelper_after_upload_abort:
  assumes "andThenOpt job
       (\<lambda>_ h. if check_objects_after_upload h then Some (UploadHelper_checkObjectAfterUpload h)
               else Some (Returned () h)) = Some r"
    and "\<And>r'. job = Some r' \<Longrightarrow> abort_follows (calls (final_state r'))
       \<and> (returned r' \<longrightarrow> UploadHelper_no_failure (final_state r'))"
  shows "abort_follows (calls (final_state r))
       \<and> (returned r \<longrightarrow> UploadHelper_no_failure (final_state r))"
proof (cases job)
  case None
  then show ?thesis using assms(1) by (simp add: andThenOpt_def)
next
  case (Some r')
  note j = assms(2)[OF Some]
  show ?thesis
  proof (cases r')
    case (Thrown e h')
    then have "r = Thrown e h'" using assms(1) Some by (simp add: andThenOpt_def)
    then show ?thesis using j Thrown by simp
  next
    case (Returned x h')
    then have n: "UploadHelper_no_failure h'" using j by simp
    have "r = UploadHelper_checkObjectAfterUpload h' \<or> r = Returned () h'"
      using assms(1) Some Returned by (simp add: andThenOpt_def split: if_splits)
    then show ?thesis
      using n UploadHelper_checkObjectAfterUpload_no_failure[OF n]
      by (auto simp: UploadHelper_no_failure_abort_follows)
  qed
qed

lemma CopyDataToFileHelper_performCopy_abort:
  assumes "CopyDataToFileHelper_performCopy h = Some r" and "UploadHelper_no_failure h"
  shows "abort_follows (calls (final_state r))
       \<and> (returned r \<longrightarrow> UploadHelper_no_failure (final_state r))"
proof (rule UploadHelper_after_upload_abort[OF assms(1)[unfolded CopyDataToFileHelper_performCopy_def]])
  fix r'
  assume a: "(if size' h \<le> max_single_part_upload_size (settings h)
        then CopyDataToFileHelper_performSinglepartUpload h
        else CopyDataToFileHelper_performMultipartUpload h) = Some r'"
  show "abort_follows (calls (final_state r'))
       \<and> (returned r' \<longrightarrow> UploadHelper_no_failure (final_state r'))"
  proof (cases "size' h \<le> max_single_part_upload_size (settings h)")
    case True
    then have "CopyDataToFileHelper_processPutRequest_loop (CopyDataToFileHelper_fillPutRequest h)
        (max (max_unexpected_write_error_retries h) 1) 1 h = Some r'"
      using a by (simp add: CopyDataToFileHelper_performSinglepartUpload_def
          CopyDataToFileHelper_processPutRequest_def)
    from UploadHelper_processPutRequest_loop_abort[OF this assms(2)] show ?thesis
      by (simp add: CopyDataToFileHelper_fillPutRequest_def failed_part_def)
  next
    case False
    then have "UploadHelper_performMultipartUpload (offset h) (size' h) h = Some r'"
      using a by (simp add: CopyDataToFileHelper_performMultipartUpload_def)
    from UploadHelper_performMultipartUpload_abort[OF this assms(2)] show ?thesis .
  qed
qed

lemma CopyFileHelper_performCopy_abort:
  assumes "CopyFileHelper_performCopy h = Some r" and "UploadHelper_no_failure h"
  shows "abort_follows (calls (final_state r))
       \<and> (returned r \<longrightarrow> UploadHelper_no_failure (final_state r))"
proof (rule UploadHelper_after_upload_abort[OF assms(1)[unfolded CopyFileHelper_performCopy_def]])
  fix r'
  assume a: "(if size' h \<le> max_single_operation_copy_size (settings h)
        then CopyFileHelper_performSingleOperationCopy h
        else CopyFileHelper_performMultipartUploadCopy h) = Some r'"
  show "abort_follows (calls (final_state r'))
       \<and> (returned r' \<longrightarrow> UploadHelper_no_failure (final_state r'))"
  proof (cases "size' h \<le> max_single_operation_copy_size (settings h)")
    case True
    then have "CopyFileHelper_processCopyRequest_loop CopyObjectRequest
        (max (max_unexpected_write_error_retries h) 1) 1 h = Some r'"
      using a by (simp add: CopyFileHelper_performSingleOperationCopy_def
          CopyFileHelper_processCopyRequest_def)
    from UploadHelper_processCopyRequest_loop_abort[OF this assms(2)] show ?thesis
      by (simp add: failed_part_def)
  next
    case False
    then have "UploadHelper_performMultipartUpload (offset h) (size' h) h = Some r'"
      using a by (simp add: CopyFileHelper_performMultipartUploadCopy_def)
    from UploadHelper_performMultipartUpload_abort[OF this assms(2)] show ?thesis .
  qed
qed

text \<open>
  Claim C4, for the uploads of \<^verbatim>\<open>copyS3File.cpp\<close>.  In the log of a job of \<^verbatim>\<open>copyDataToS3File\<close>
  or \<^verbatim>\<open>copyS3File\<close>, with or without a pool, every failed \<open>UploadPart\<close> or \<open>UploadPartCopy\<close> is
  followed, sooner or later, by an \<open>AbortMultipartUpload\<close>; a job in which a part has failed
  does not return normally, and its log has an abort, sent before the exception reaches the
  caller.
  Whatever the store answers to an abort, \<^verbatim>\<open>abortMultipartUpload\<close> returns, having set
  \<open>multipart_upload_aborted\<close>: a repeated abort is harmless.  The streaming writer has no
  abort: \<^verbatim>\<open>WriteBufferFromS3::processUploadRequest\<close> throws on a failed part and sends nothing
  more.
\<close>

theorem failed_part_is_aborted:
  assumes "copyDataToS3File client offset0 size0 settings0 check0 retries0 schedule0 = Some r
         \<or> copyS3File client offset0 size0 settings0 check0 retries0 schedule0 = Some r"
  shows "abort_follows (calls (final_state r))
       \<and> (part_failed (calls (final_state r)) \<longrightarrow>
            \<not> returned r \<and> (\<exists>c \<in> set (calls (final_state r)). is_abort c))
       \<and> (\<exists>out. UploadHelper_abortMultipartUpload h
             = h\<lparr>calls := calls h @ [(AbortMultipartUploadRequest (multipart_upload_id h), out)],
                 multipart_upload_aborted := True\<rparr>)
       \<and> (client_ptr w (calls w) request = Failure err \<longrightarrow>
            WriteBufferFromS3_processUploadRequest (task\<lparr>req := Some request\<rparr>) w
              = Thrown (S3Exception (GetErrorType err)) (w\<lparr>calls := calls w @ [(request, Failure err)]\<rparr>))"
proof -
  have w: "client_ptr w (calls w) request = Failure err \<longrightarrow>
            WriteBufferFromS3_processUploadRequest (task\<lparr>req := Some request\<rparr>) w
              = Thrown (S3Exception (GetErrorType err)) (w\<lparr>calls := calls w @ [(request, Failure err)]\<rparr>)"
    by (simp add: WriteBufferFromS3_processUploadRequest_def send_def Let_def)
  have a: "abort_follows (calls (final_state r))
       \<and> (returned r \<longrightarrow> UploadHelper_no_failure (final_state r))"
    using assms CopyDataToFileHelper_performCopy_abort[OF _ UploadHelper_new_no_failure]
      CopyFileHelper_performCopy_abort[OF _ UploadHelper_new_no_failure]
    unfolding copyDataToS3File_def copyS3File_def by blast
  then have "part_failed (calls (final_state r)) \<longrightarrow> \<not> returned r"
    by (auto simp: UploadHelper_no_failure_def)
  moreover have "part_failed (calls (final_state r)) \<longrightarrow> (\<exists>c \<in> set (calls (final_state r)). is_abort c)"
    using a abort_follows_has_abort by blast
  ultimately show ?thesis using a w UploadHelper_abortMultipartUpload_calls[of h] by blast
qed

theorem failed_part_is_aborted_witness:
  "\<exists>r. copyDataToS3File failing_part_client 0 40 small_settings False 1 (Some two_in_flight) = Some r
     \<and> requests (final_state r) =
         [CreateMultipartUploadRequest,
          UploadPartRequest ''upload-1'' 1 (LimitSeekableReadBuffer 0 16),
          UploadPartRequest ''upload-1'' 2 (LimitSeekableReadBuffer 16 16),
          AbortMultipartUploadRequest ''upload-1'',
          AbortMultipartUploadRequest ''upload-1'',
          AbortMultipartUploadRequest ''upload-1'']
     \<and> part_failed (calls (final_state r))
     \<and> abort_follows (calls (final_state r))
     \<and> \<not> returned r
     \<and> (\<exists>c \<in> set (calls (final_state r)). is_abort c)
     \<and> WriteBufferFromS3_processUploadRequest
           ((new_task 0)\<lparr>req := Some (UploadPartRequest ''upload-1'' 1 (StringStream 40))\<rparr>)
           (WriteBufferFromS3_new failing_part_client small_settings False 1 None)
         = Thrown (S3Exception (OTHER_S3_ERROR 1))
             ((WriteBufferFromS3_new failing_part_client small_settings False 1 None)
                \<lparr>calls := [(UploadPartRequest ''upload-1'' 1 (StringStream 40), Failure internal_error)]\<rparr>)"
proof -
  let ?w = "WriteBufferFromS3_new failing_part_client small_settings False 1 None"
  let ?u = "UploadPartRequest ''upload-1'' 1 (StringStream 40)"
  have f: "client_ptr ?w (calls ?w) ?u = Failure internal_error" "calls ?w = []"
    "GetErrorType internal_error = OTHER_S3_ERROR 1"
    by (simp_all add: WriteBufferFromS3_new_def WriteBufferFromS3_allocateBuffer_def
        failing_part_client_def internal_error_def)
  have "map_option (\<lambda>r. (returned r, calls (final_state r)))
       (copyDataToS3File failing_part_client 0 40 small_settings False 1 (Some two_in_flight))
     = Some (False,
         [(CreateMultipartUploadRequest, Success ''upload-1''),
          (UploadPartRequest ''upload-1'' 1 (LimitSeekableReadBuffer 0 16), Failure internal_error),
          (UploadPartRequest ''upload-1'' 2 (LimitSeekableReadBuffer 16 16), Failure internal_error),
          (AbortMultipartUploadRequest ''upload-1'', Failure no_such_upload),
          (AbortMultipartUploadRequest ''upload-1'', Failure no_such_upload),
          (AbortMultipartUploadRequest ''upload-1'', Failure no_such_upload)])"
    by code_simp
  then obtain r where r: "copyDataToS3File failing_part_client 0 40 small_settings False 1
        (Some two_in_flight) = Some r" "\<not> returned r"
    and c: "calls (final_state r) =
         [(CreateMultipartUploadRequest, Success ''upload-1''),
          (UploadPartRequest ''upload-1'' 1 (LimitSeekableReadBuffer 0 16), Failure internal_error),
          (UploadPartRequest ''upload-1'' 2 (LimitSeekableReadBuffer 16 16), Failure internal_error),
          (AbortMultipartUploadRequest ''upload-1'', Failure no_such_upload),
          (AbortMultipartUploadRequest ''upload-1'', Failure no_such_upload),
          (AbortMultipartUploadRequest ''upload-1'', Failure no_such_upload)]"
    by auto
  have p: "part_failed (calls (final_state r))" by (simp add: c part_failed_def failed_part_def)
  from failed_part_is_aborted[where client = failing_part_client and ?offset0.0 = 0 and ?size0.0 = 40
      and ?settings0.0 = small_settings and ?check0.0 = False and ?retries0.0 = 1
      and ?schedule0.0 = "Some two_in_flight" and r = r
      and w = ?w and request = ?u and err = internal_error and task = "new_task 0",
      OF disjI1[OF r(1)]] p f
  have "abort_follows (calls (final_state r)) \<and> (\<exists>c \<in> set (calls (final_state r)). is_abort c)
      \<and> WriteBufferFromS3_processUploadRequest ((new_task 0)\<lparr>req := Some ?u\<rparr>) ?w
         = Thrown (S3Exception (OTHER_S3_ERROR 1)) (?w\<lparr>calls := [(?u, Failure internal_error)]\<rparr>)"
    by simp
  then show ?thesis using r c p by (auto simp: requests_def)
qed

text \<open>
  Claim C4 as it is written covers the streaming writer as well, and there it fails.  A write
  of 40 bytes with a single-part threshold of 32 opens a multipart upload; the store refuses
  the part; \<^verbatim>\<open>WriteBufferFromS3::processUploadRequest\<close> throws, and the exception reaches the
  caller with no \<open>AbortMultipartUpload\<close> in the log.
\<close>

theorem WriteBufferFromS3_failed_part_not_aborted:
  "\<not> returned (WriteBufferFromS3_write_and_finalize [40] 0
         (WriteBufferFromS3_new failing_part_client small_settings False 1 None))
   \<and> calls (final_state (WriteBufferFromS3_write_and_finalize [40] 0
         (WriteBufferFromS3_new failing_part_client small_settings False 1 None)))
      = [(CreateMultipartUploadRequest, Success ''upload-1''),
         (UploadPartRequest ''upload-1'' 1 (StringStream 40), Failure internal_error)]
   \<and> \<not> abort_follows (calls (final_state (WriteBufferFromS3_write_and_finalize [40] 0
         (WriteBufferFromS3_new failing_part_client small_settings False 1 None))))"
proof -
  have e: "\<exists>w'. WriteBufferFromS3_write_and_finalize [40] 0
         (WriteBufferFromS3_new failing_part_client small_settings False 1 None)
       = Thrown (S3Exception (OTHER_S3_ERROR 1)) w'
     \<and> calls w' = [(CreateMultipartUploadRequest, Success ''upload-1''),
         (UploadPartRequest ''upload-1'' 1 (StringStream 40), Failure internal_error)]"
    by (simp add: WriteBufferFromS3_defs Let_def small_settings_def failing_part_client_def
        internal_error_def)
  then show ?thesis by (auto simp: failed_part_def)
qed


section \<open>The tags of a multipart upload and the parts in the log\<close>

lemma part_answers_append [simp]: "part_answers (cs @ cs') = part_answers cs @ part_answers cs'"
  by (simp add: part_answers_def List.map_filter_def)

lemma part_answers_Nil [simp]: "part_answers [] = []"
  by (simp add: part_answers_def List.map_filter_def)

lemma part_answers_Cons:
  "part_answers (c # cs) = (case part_answer c of None \<Rightarrow> [] | Some p \<Rightarrow> [p]) @ part_answers cs"
  by (simp add: part_answers_def List.map_filter_def split: option.splits)

lemma part_answers_quiet:
  "\<forall>c \<in> set cs. part_answer c = None \<Longrightarrow> part_answers cs = []"
  by (induction cs) (simp_all add: part_answers_Cons)

lemma numbered_tags_Nil [simp]: "numbered_tags [] = []"
  by (simp add: numbered_tags_def CompletedMultipartUpload_def)

lemma numbered_tags_eq:
  "numbered_tags tags = map (\<lambda>i. (part_number_at i, Success (tags ! i))) [0..<length tags]"
  by (simp add: numbered_tags_def CompletedMultipartUpload_def part_number_at_def)

lemma numbered_tags_snoc:
  "numbered_tags (tags @ [etag]) = numbered_tags tags @ [(part_number_at (length tags), Success etag)]"
  by (simp add: numbered_tags_eq nth_append)

lemma length_numbered_tags [simp]: "length (numbered_tags tags) = length tags"
  by (simp add: numbered_tags_eq)

lemma complete_free_append [simp]:
  "complete_free (cs @ cs') = (complete_free cs \<and> complete_free cs')"
  by (auto simp: complete_free_def)

lemma complete_free_Nil [simp]: "complete_free []"
  by (simp add: complete_free_def)

lemma part_request_complete_free:
  "part_number_of request \<noteq> None \<Longrightarrow> complete_free [(request, out)]"
  by (cases request) (simp_all add: complete_free_def part_number_of_def)

text \<open>The finished tasks of a list in which one task moves on.\<close>

lemma finished_answers_quiet:
  assumes "\<And>t. is_finished (f t) = is_finished t \<and> task_answer (f t) = task_answer t"
  shows "map task_answer (filter is_finished (update_task i f ts))
       = map task_answer (filter is_finished ts)"
  using assms by (induction ts) (simp_all add: update_task_def)

lemma finished_answers_gain:
  assumes "distinct (map task_id ts)" and "find (\<lambda>t. task_id t = i) ts = Some task"
    and "\<not> is_finished task" and "is_finished (f task)"
  shows "mset (map task_answer (filter is_finished (update_task i f ts)))
       = mset (map task_answer (filter is_finished ts)) + {#task_answer (f task)#}"
  using assms
proof (induction ts)
  case Nil
  then show ?case by simp
next
  case (Cons t ts)
  show ?case
  proof (cases "task_id t = i")
    case True
    then have t: "t = task" using Cons.prems(2) by simp
    have "task_id t' \<noteq> i" if "t' \<in> set ts" for t'
    proof -
      from that have "task_id t' \<in> task_id ` set ts" by (rule imageI)
      moreover have "task_id t \<notin> task_id ` set ts" using Cons.prems(1) by simp
      ultimately show ?thesis using True by auto
    qed
    then have "update_task i f ts = ts" by (simp add: update_task_def map_idI)
    then show ?thesis using True t Cons.prems(3,4) by (simp add: update_task_def)
  next
    case False
    then have "find (\<lambda>t. task_id t = i) ts = Some task" using Cons.prems(2) by simp
    from Cons.IH[OF _ this Cons.prems(3,4)] Cons.prems(1) False show ?thesis
      by (simp add: update_task_def)
  qed
qed

lemma tasks_numbered_update:
  assumes "\<And>t. req (f t) = req t"
  shows "tasks_numbered k (update_task i f ts) = tasks_numbered k ts"
  using assms by (simp add: tasks_numbered_def update_task_nth)

lemma tasks_numbered_member:
  assumes "tasks_numbered k ts" and "t \<in> set ts"
  shows "\<exists>request n. req t = Some request \<and> part_number_of request = Some n"
proof -
  from assms(2) obtain j where "j < length ts" "ts ! j = t" unfolding in_set_conv_nth by blast
  with assms(1) have "\<exists>request. req (ts ! j) = Some request
      \<and> part_number_of request = Some (part_number_at (k + j))"
    unfolding tasks_numbered_def by blast
  then show ?thesis using \<open>ts ! j = t\<close> by blast
qed

lemma clean_update_back:
  assumes "\<And>t. clean_task (f t) \<longrightarrow> clean_task t" and "\<forall>t \<in> set (update_task i f ts). clean_task t"
  shows "\<forall>t \<in> set ts. clean_task t"
proof
  fix t assume "t \<in> set ts"
  then have "(if task_id t = i then f t else t) \<in> set (update_task i f ts)"
    by (simp add: update_task_set)
  with assms(2) have "clean_task (if task_id t = i then f t else t)" by blast
  then show "clean_task t" using assms(1) by (auto split: if_splits)
qed

text \<open>Calls that are no part uploads.\<close>

lemma parts_in_order_calls:
  assumes "parts_in_order cs tags ts" and "\<forall>c \<in> set new. part_answer c = None"
    and "complete_free new"
  shows "parts_in_order (cs @ new) tags ts"
proof -
  have "part_answers (cs @ new) = part_answers cs"
    using part_answers_quiet[OF assms(2)] by simp
  then show ?thesis using assms(1,3) unfolding parts_in_order_def by simp
qed

text \<open>A step that neither finishes a task nor fails.\<close>

lemma parts_in_order_quiet:
  assumes "parts_in_order cs tags ts"
    and "\<And>t. req (f t) = req t \<and> tag (f t) = tag t \<and> is_finished (f t) = is_finished t
             \<and> (clean_task (f t) \<longrightarrow> clean_task t)"
  shows "parts_in_order cs tags (update_task i f ts)"
proof -
  from assms(1) have n: "tasks_numbered (length tags) ts" and cf: "complete_free cs"
    and eq: "(\<forall>t \<in> set ts. clean_task t) \<longrightarrow>
          mset (part_answers cs)
            = mset (numbered_tags tags) + mset (map task_answer (filter is_finished ts))"
    unfolding parts_in_order_def by blast+
  have a: "is_finished (f t) = is_finished t \<and> task_answer (f t) = task_answer t" for t
    using assms(2)[of t] by (simp add: task_answer_def)
  have fa: "map task_answer (filter is_finished (update_task i f ts))
       = map task_answer (filter is_finished ts)"
    by (rule finished_answers_quiet[OF a])
  have r: "req (f t) = req t" for t using assms(2)[of t] by simp
  have n': "tasks_numbered (length tags) (update_task i f ts)"
    using n tasks_numbered_update[of f "length tags" i ts, OF r] by simp
  have cl: "clean_task (f t) \<longrightarrow> clean_task t" for t using assms(2)[of t] by simp
  have "mset (part_answers cs) = mset (numbered_tags tags)
          + mset (map task_answer (filter is_finished (update_task i f ts)))"
    if "\<forall>t \<in> set (update_task i f ts). clean_task t"
  proof -
    from clean_update_back[of f i ts, OF cl that] eq show ?thesis unfolding fa by blast
  qed
  then show ?thesis unfolding parts_in_order_def using n' cf by blast
qed

text \<open>A task whose part the store accepts.\<close>

lemma parts_in_order_accepted:
  assumes inv: "parts_in_order cs tags ts" and d: "distinct (map task_id ts)"
    and task: "find (\<lambda>t. task_id t = i) ts = Some task" "\<not> is_finished task"
      "req task = Some request"
  shows "parts_in_order (cs @ [(request, Success etag)]) tags
           (update_task i (\<lambda>t. t\<lparr>tag := etag, is_finished := True\<rparr>) ts)"
proof -
  let ?f = "\<lambda>t. t\<lparr>tag := etag, is_finished := True\<rparr>"
  from inv have n: "tasks_numbered (length tags) ts" and cf: "complete_free cs"
    and eq: "(\<forall>t \<in> set ts. clean_task t) \<longrightarrow>
          mset (part_answers cs)
            = mset (numbered_tags tags) + mset (map task_answer (filter is_finished ts))"
    by (simp_all add: parts_in_order_def)
  from tasks_numbered_member[OF n] find_task_member[OF task(1)] task(3)
  obtain k where k: "part_number_of request = Some k" by fastforce
  have pa: "part_answers [(request, Success etag)] = [task_answer (?f task)]"
    using k task(3) by (simp add: part_answers_Cons part_answer_def task_answer_def)
  have cf': "complete_free [(request, Success etag)]"
    using k by (intro part_request_complete_free) simp
  have n': "tasks_numbered (length tags) (update_task i ?f ts)"
    using n by (simp add: tasks_numbered_update)
  have g: "mset (map task_answer (filter is_finished (update_task i ?f ts)))
       = mset (map task_answer (filter is_finished ts)) + {#task_answer (?f task)#}"
    by (rule finished_answers_gain[OF d task(1,2)]) simp
  have c: "\<forall>t \<in> set (update_task i ?f ts). clean_task t \<Longrightarrow> \<forall>t \<in> set ts. clean_task t"
    by (rule clean_update_back[of ?f i ts]) (simp_all add: clean_task_def)
  have "mset (part_answers (cs @ [(request, Success etag)]))
      = mset (numbered_tags tags)
        + mset (map task_answer (filter is_finished (update_task i ?f ts)))"
    if "\<forall>t \<in> set (update_task i ?f ts). clean_task t"
  proof -
    from c[OF that] eq have "mset (part_answers cs)
        = mset (numbered_tags tags) + mset (map task_answer (filter is_finished ts))" by blast
    moreover have "mset (part_answers (cs @ [(request, Success etag)]))
        = mset (part_answers cs) + {#task_answer (?f task)#}" by (simp add: pa)
    ultimately show ?thesis using g by simp
  qed
  then show ?thesis
    unfolding parts_in_order_def using n' cf cf' by simp
qed

text \<open>Once a task has failed nothing more is said of the log.\<close>

lemma parts_in_order_unclean:
  assumes "tasks_numbered (length tags) ts" and "complete_free cs"
    and "\<not> (\<forall>t \<in> set ts. clean_task t)"
  shows "parts_in_order cs tags ts"
  using assms unfolding parts_in_order_def by blast

lemma unclean_update_stays:
  assumes "\<not> (\<forall>t \<in> set ts. clean_task t)" and "\<And>t. clean_task (f t) \<longrightarrow> clean_task t"
  shows "\<not> (\<forall>t \<in> set (update_task i f ts). clean_task t)"
  using clean_update_back[of f i ts] assms by blast

lemma unclean_update_gains:
  assumes "task \<in> set ts" and "task_id task = i" and "\<not> clean_task (f task)"
  shows "\<not> (\<forall>t \<in> set (update_task i f ts). clean_task t)"
  using update_task_gains[of task ts i "\<lambda>t. \<not> clean_task t" f] assms by blast

text \<open>A new task at the end of the list.\<close>

lemma parts_in_order_schedule:
  assumes "parts_in_order cs tags ts"
    and "part_number_of request = Some (part_number_at (length tags + length ts))"
  shows "parts_in_order cs tags (ts @ [(new_task i)\<lparr>req := Some request\<rparr>])"
proof -
  let ?t = "(new_task i)\<lparr>req := Some request\<rparr>"
  from assms(1) have n: "tasks_numbered (length tags) ts" by (simp add: parts_in_order_def)
  have n': "tasks_numbered (length tags) (ts @ [?t])"
    unfolding tasks_numbered_def
  proof (intro allI impI)
    fix j assume j: "j < length (ts @ [?t])"
    show "\<exists>request. req ((ts @ [?t]) ! j) = Some request
              \<and> part_number_of request = Some (part_number_at (length tags + j))"
    proof (cases "j < length ts")
      case True
      then show ?thesis using n by (simp add: tasks_numbered_def nth_append)
    next
      case False
      then have "j = length ts" using j by simp
      then show ?thesis using assms(2) by (simp add: nth_append)
    qed
  qed
  have "filter is_finished (ts @ [?t]) = filter is_finished ts" by (simp add: new_task_def)
  moreover have "(\<forall>t \<in> set (ts @ [?t]). clean_task t) \<longrightarrow> (\<forall>t \<in> set ts. clean_task t)" by simp
  ultimately show ?thesis using assms(1) n' unfolding parts_in_order_def by auto
qed

text \<open>The finished task at the head of the list is taken off and its tag collected.\<close>

lemma parts_in_order_collect:
  assumes inv: "parts_in_order cs tags (t # ts)" and t: "is_finished t" "clean_task t"
  shows "parts_in_order cs (tags @ [tag t]) ts"
proof -
  from inv have n: "tasks_numbered (length tags) (t # ts)" and cf: "complete_free cs"
    and eq: "(\<forall>t' \<in> set (t # ts). clean_task t') \<longrightarrow>
          mset (part_answers cs)
            = mset (numbered_tags tags) + mset (map task_answer (filter is_finished (t # ts)))"
    by (simp_all add: parts_in_order_def)
  have "0 < length (t # ts)" by simp
  with n have "\<exists>request. req ((t # ts) ! 0) = Some request
      \<and> part_number_of request = Some (part_number_at (length tags + 0))"
    unfolding tasks_numbered_def by blast
  then have "\<exists>request. req t = Some request
      \<and> part_number_of request = Some (part_number_at (length tags))" by simp
  then have a: "task_answer t = (part_number_at (length tags), Success (tag t))"
    by (auto simp: task_answer_def)
  have n': "tasks_numbered (length (tags @ [tag t])) ts"
    unfolding tasks_numbered_def
  proof (intro allI impI)
    fix j assume "j < length ts"
    then have "Suc j < length (t # ts)" by simp
    with n have "\<exists>request. req ((t # ts) ! Suc j) = Some request
              \<and> part_number_of request = Some (part_number_at (length tags + Suc j))"
      unfolding tasks_numbered_def by blast
    then show "\<exists>request. req (ts ! j) = Some request
              \<and> part_number_of request = Some (part_number_at (length (tags @ [tag t]) + j))"
      by simp
  qed
  have "mset (part_answers cs) = mset (numbered_tags (tags @ [tag t]))
          + mset (map task_answer (filter is_finished ts))"
    if "\<forall>t' \<in> set ts. clean_task t'"
  proof -
    from that t(2) eq have "mset (part_answers cs)
        = mset (numbered_tags tags) + mset (map task_answer (filter is_finished (t # ts)))"
      by simp
    then show ?thesis using t(1) by (simp add: numbered_tags_snoc a)
  qed
  then show ?thesis unfolding parts_in_order_def using n' cf by blast
qed

text \<open>A part uploaded by the calling thread itself.\<close>

lemma parts_in_order_inline:
  assumes "parts_in_order cs tags []"
    and "part_number_of request = Some (part_number_at (length tags))"
  shows "parts_in_order (cs @ [(request, Success etag)]) (tags @ [etag]) []"
proof -
  have "complete_free [(request, Success etag)]"
    using assms(2) by (intro part_request_complete_free) simp
  then show ?thesis
    using assms
    by (simp add: parts_in_order_def tasks_numbered_def numbered_tags_snoc part_answers_Cons
        part_answer_def)
qed

lemma parts_in_order_done:
  "parts_in_order cs tags [] \<Longrightarrow> mset (part_answers cs) = mset (numbered_tags tags)"
  by (simp add: parts_in_order_def)

lemma parts_in_order_empty:
  "part_answers cs = [] \<Longrightarrow> complete_free cs \<Longrightarrow> parts_in_order cs [] []"
  by (simp add: parts_in_order_def tasks_numbered_def)

lemma update_task_all:
  assumes "\<forall>t \<in> set ts. P t" and "\<And>t. t \<in> set ts \<Longrightarrow> task_id t = i \<Longrightarrow> P (f t)"
  shows "\<forall>t \<in> set (update_task i f ts). P t"
  using assms by (auto simp: update_task_set)

lemma parts_in_order_numbered:
  "parts_in_order cs tags ts \<Longrightarrow> tasks_numbered (length tags) ts \<and> complete_free cs"
  by (simp add: parts_in_order_def)

subsection \<open>\<^verbatim>\<open>UploadHelper\<close>\<close>

lemma UploadHelper_order_inv_step:
  assumes "UploadHelper_tasks_ok h'" and "schedule h \<noteq> None \<longrightarrow> part_tags h = []"
    and "bg_tasks (h'::upload_helper) = ts" and "calls h' = cs" and "multipart_upload_aborted h' = ab"
    and "schedule h' = schedule h" and "part_tags h' = part_tags h"
    and "\<forall>t \<in> set ts. is_finished t \<and> failed t \<noteq> None \<longrightarrow> exception t \<noteq> None"
    and "(\<forall>t \<in> set ts. clean_task t) \<longrightarrow> \<not> ab"
    and "parts_in_order cs (part_tags h) ts"
  shows "UploadHelper_order_inv h'"
  unfolding UploadHelper_order_inv_def assms(3,4,5,6,7)
  using assms(1,2,8,9,10) by blast

lemma UploadHelper_order_inv_run_task:
  assumes "UploadHelper_order_inv h"
  shows "UploadHelper_order_inv (UploadHelper_run_task i h)"
proof -
  from assms have ok: "UploadHelper_tasks_ok h"
    and pt: "schedule h \<noteq> None \<longrightarrow> part_tags h = []"
    and X: "\<forall>t \<in> set (bg_tasks h). is_finished t \<and> failed t \<noteq> None \<longrightarrow> exception t \<noteq> None"
    and Y: "(\<forall>t \<in> set (bg_tasks h). clean_task t) \<longrightarrow> \<not> multipart_upload_aborted h"
    and P: "parts_in_order (calls h) (part_tags h) (bg_tasks h)"
    by (simp_all add: UploadHelper_order_inv_def)
  note ok' = UploadHelper_tasks_ok_run_task[OF ok, of i]
  note np = parts_in_order_numbered[OF P]
  have d: "distinct (map task_id (bg_tasks h))" using ok by (simp add: UploadHelper_tasks_ok_def)
  show ?thesis
  proof (cases rule: UploadHelper_run_task_cases[of i h])
    case idle
    then show ?thesis using assms by simp
  next
    case (skip task)
    note u = task_ids_unique[OF d skip(1)]
    let ?f = "\<lambda>t. t\<lparr>is_finished := True\<rparr>"
    have fn: "failed task = None"
      using ok find_task_member[OF skip(1)] skip(3) by (auto simp: UploadHelper_tasks_ok_def)
    have "\<not> (\<forall>t \<in> set (bg_tasks h). clean_task t)" using Y skip(4) by blast
    then have uc: "\<not> (\<forall>t \<in> set (update_task i ?f (bg_tasks h)). clean_task t)"
      by (rule unclean_update_stays) (simp add: clean_task_def)
    have P': "parts_in_order (calls h) (part_tags h) (update_task i ?f (bg_tasks h))"
      using np uc by (intro parts_in_order_unclean) (simp_all add: tasks_numbered_update)
    have X': "\<forall>t \<in> set (update_task i ?f (bg_tasks h)).
        is_finished t \<and> failed t \<noteq> None \<longrightarrow> exception t \<noteq> None"
    proof (intro update_task_all)
      fix t assume "t \<in> set (bg_tasks h)" "task_id t = i"
      then have "t = task" by (rule u)
      then show "is_finished (?f t) \<and> failed (?f t) \<noteq> None \<longrightarrow> exception (?f t) \<noteq> None"
        using fn by simp
    qed (rule X)
    have Y': "(\<forall>t \<in> set (update_task i ?f (bg_tasks h)). clean_task t) \<longrightarrow> \<not> multipart_upload_aborted h"
      using uc by blast
    show ?thesis
      by (rule UploadHelper_order_inv_step[OF ok' pt _ _ _ _ _ X' Y' P'])
         (simp_all add: skip(5))
  next
    case (start task)
    let ?f = "\<lambda>t. t\<lparr>started := True\<rparr>"
    have P': "parts_in_order (calls h) (part_tags h) (update_task i ?f (bg_tasks h))"
      by (rule parts_in_order_quiet[OF P]) (simp add: clean_task_def)
    have X': "\<forall>t \<in> set (update_task i ?f (bg_tasks h)).
        is_finished t \<and> failed t \<noteq> None \<longrightarrow> exception t \<noteq> None"
    proof (intro update_task_all)
      fix t assume "t \<in> set (bg_tasks h)"
      then show "is_finished (?f t) \<and> failed (?f t) \<noteq> None \<longrightarrow> exception (?f t) \<noteq> None"
        using X by simp
    qed (rule X)
    have Y': "(\<forall>t \<in> set (update_task i ?f (bg_tasks h)). clean_task t) \<longrightarrow> \<not> multipart_upload_aborted h"
    proof
      assume "\<forall>t \<in> set (update_task i ?f (bg_tasks h)). clean_task t"
      then have "\<forall>t \<in> set (bg_tasks h). clean_task t"
        by (rule clean_update_back[rotated]) (simp add: clean_task_def)
      then show "\<not> multipart_upload_aborted h" using Y by blast
    qed
    show ?thesis
      by (rule UploadHelper_order_inv_step[OF ok' pt _ _ _ _ _ X' Y' P'])
         (simp_all add: start(5))
  next
    case (no_request task)
    then show ?thesis
      using ok find_task_member[OF no_request(1)] by (auto simp: UploadHelper_tasks_ok_def)
  next
    case (accepted task request etag)
    note u = task_ids_unique[OF d accepted(1)]
    let ?f = "\<lambda>t. t\<lparr>tag := etag, is_finished := True\<rparr>"
    have P': "parts_in_order (calls h @ [(request, Success etag)]) (part_tags h)
        (update_task i ?f (bg_tasks h))"
      by (rule parts_in_order_accepted[OF P d accepted(1,2,4)])
    have X': "\<forall>t \<in> set (update_task i ?f (bg_tasks h)).
        is_finished t \<and> failed t \<noteq> None \<longrightarrow> exception t \<noteq> None"
    proof (intro update_task_all)
      fix t assume "t \<in> set (bg_tasks h)" "task_id t = i"
      then have "t = task" by (rule u)
      then show "is_finished (?f t) \<and> failed (?f t) \<noteq> None \<longrightarrow> exception (?f t) \<noteq> None"
        using accepted(5) by simp
    qed (rule X)
    have Y': "(\<forall>t \<in> set (update_task i ?f (bg_tasks h)). clean_task t) \<longrightarrow> \<not> multipart_upload_aborted h"
    proof
      assume "\<forall>t \<in> set (update_task i ?f (bg_tasks h)). clean_task t"
      then have "\<forall>t \<in> set (bg_tasks h). clean_task t"
        by (rule clean_update_back[rotated]) (simp add: clean_task_def)
      then show "\<not> multipart_upload_aborted h" using Y by blast
    qed
    show ?thesis
      by (rule UploadHelper_order_inv_step[OF ok' pt _ _ _ _ _ X' Y' P'])
         (simp_all add: accepted(7))
  next
    case (refused task request err)
    note u = task_ids_unique[OF d refused(1)]
    note m = find_task_member[OF refused(1)]
    let ?f = "\<lambda>t. t\<lparr>failed := Some err\<rparr>"
    have uc: "\<not> (\<forall>t \<in> set (update_task i ?f (bg_tasks h)). clean_task t)"
      using m by (intro unclean_update_gains[of task]) (simp_all add: clean_task_def)
    from tasks_numbered_member[of "length (part_tags h)" "bg_tasks h" task] np m refused(4)
    have "part_number_of request \<noteq> None" by auto
    then have cf: "complete_free [(request, Failure err)]" by (rule part_request_complete_free)
    have P': "parts_in_order (calls h @ [(request, Failure err)]) (part_tags h)
        (update_task i ?f (bg_tasks h))"
      using np uc cf by (intro parts_in_order_unclean) (simp_all add: tasks_numbered_update)
    have X': "\<forall>t \<in> set (update_task i ?f (bg_tasks h)).
        is_finished t \<and> failed t \<noteq> None \<longrightarrow> exception t \<noteq> None"
    proof (intro update_task_all)
      fix t assume "t \<in> set (bg_tasks h)" "task_id t = i"
      then have "t = task" by (rule u)
      then show "is_finished (?f t) \<and> failed (?f t) \<noteq> None \<longrightarrow> exception (?f t) \<noteq> None"
        using refused(2) by simp
    qed (rule X)
    have Y': "(\<forall>t \<in> set (update_task i ?f (bg_tasks h)). clean_task t) \<longrightarrow> \<not> multipart_upload_aborted h"
      using uc by blast
    show ?thesis
      by (rule UploadHelper_order_inv_step[OF ok' pt _ _ _ _ _ X' Y' P'])
         (simp_all add: refused(7))
  next
    case (abort task request err out e)
    note m = find_task_member[OF abort(1)]
    let ?f = "\<lambda>t. t\<lparr>exception := Some e, is_finished := True\<rparr>"
    have uc: "\<not> (\<forall>t \<in> set (update_task i ?f (bg_tasks h)). clean_task t)"
      using m by (intro unclean_update_gains[of task]) (simp_all add: clean_task_def)
    have cf: "complete_free [(AbortMultipartUploadRequest (multipart_upload_id h), out)]"
      by (simp add: complete_free_def)
    have P': "parts_in_order (calls h @ [(AbortMultipartUploadRequest (multipart_upload_id h), out)])
        (part_tags h) (update_task i ?f (bg_tasks h))"
      using np uc cf by (intro parts_in_order_unclean) (simp_all add: tasks_numbered_update)
    have X': "\<forall>t \<in> set (update_task i ?f (bg_tasks h)).
        is_finished t \<and> failed t \<noteq> None \<longrightarrow> exception t \<noteq> None"
    proof (intro update_task_all)
      fix t assume "t \<in> set (bg_tasks h)"
      then show "is_finished (?f t) \<and> failed (?f t) \<noteq> None \<longrightarrow> exception (?f t) \<noteq> None"
        using X by simp
    qed (rule X)
    have Y': "(\<forall>t \<in> set (update_task i ?f (bg_tasks h)). clean_task t) \<longrightarrow> \<not> True"
      using uc by blast
    show ?thesis
      by (rule UploadHelper_order_inv_step[OF ok' pt _ _ _ _ _ X' Y' P'])
         (simp_all add: abort(6))
  qed
qed

lemma UploadHelper_order_inv_fold:
  "UploadHelper_order_inv h \<Longrightarrow> UploadHelper_order_inv (fold UploadHelper_run_task steps h)"
  by (induction steps arbitrary: h) (simp_all add: UploadHelper_order_inv_run_task)

lemma UploadHelper_order_inv_ticks:
  "UploadHelper_order_inv (h\<lparr>ticks := t\<rparr>) = UploadHelper_order_inv h"
  by (simp add: UploadHelper_order_inv_def UploadHelper_tasks_ok_def)

lemma UploadHelper_order_inv_pool_runs:
  "UploadHelper_order_inv h \<Longrightarrow> UploadHelper_order_inv (pool_runs UploadHelper_run_task h)"
  by (simp add: pool_runs_def UploadHelper_order_inv_fold UploadHelper_order_inv_ticks
      split: option.splits)

lemma UploadHelper_order_inv_fold3:
  "UploadHelper_order_inv h \<Longrightarrow>
   UploadHelper_order_inv
     (fold (\<lambda>t s. UploadHelper_run_task (task_id t)
              (UploadHelper_run_task (task_id t) (UploadHelper_run_task (task_id t) s))) ts h)"
  by (induction ts arbitrary: h) (simp_all add: UploadHelper_order_inv_run_task)

lemma UploadHelper_order_inv_wait_finished:
  "UploadHelper_order_inv h \<Longrightarrow> UploadHelper_order_inv (UploadHelper_wait_finished h)"
  by (simp add: UploadHelper_wait_finished_def Let_def UploadHelper_order_inv_fold3
      UploadHelper_order_inv_pool_runs)

lemma UploadHelper_fillUploadPartRequest_number:
  "part_number_of (UploadHelper_fillUploadPartRequest number part_offset part_size h)
     = Some (static_cast_int number)"
  by (cases "dynamic_type h")
     (simp_all add: UploadHelper_fillUploadPartRequest_def part_number_of_def)

lemma UploadHelper_order_inv_uploadPart:
  assumes inv: "UploadHelper_order_inv h" and s: "part_size \<noteq> 0"
    and n: "number = of_nat (length (part_tags h) + length (bg_tasks h)) + 1"
    and r: "UploadHelper_uploadPart number part_offset part_size h = Returned () h'"
  shows "UploadHelper_order_inv h'
     \<and> length (part_tags h') + length (bg_tasks h') = Suc (length (part_tags h) + length (bg_tasks h))
     \<and> normal_part_size h' = normal_part_size h"
proof -
  from inv have ok: "UploadHelper_tasks_ok h"
    and pt: "schedule h \<noteq> None \<longrightarrow> part_tags h = []"
    and X: "\<forall>t \<in> set (bg_tasks h). is_finished t \<and> failed t \<noteq> None \<longrightarrow> exception t \<noteq> None"
    and Y: "(\<forall>t \<in> set (bg_tasks h). clean_task t) \<longrightarrow> \<not> multipart_upload_aborted h"
    and P: "parts_in_order (calls h) (part_tags h) (bg_tasks h)"
    by (simp_all add: UploadHelper_order_inv_def)
  let ?r = "UploadHelper_fillUploadPartRequest number part_offset part_size h"
  have rn: "part_number_of ?r = Some (part_number_at (length (part_tags h) + length (bg_tasks h)))"
    by (simp add: UploadHelper_fillUploadPartRequest_number n part_number_at_def)
  show ?thesis
  proof (cases "schedule h")
    case (Some pool)
    then have sc: "schedule h \<noteq> None" by simp
    let ?t = "(new_task (length (bg_tasks h)))\<lparr>req := Some ?r\<rparr>"
    define h2 where "h2 = h\<lparr>num_added_bg_tasks := num_added_bg_tasks h + 1, bg_tasks := bg_tasks h @ [?t]\<rparr>"
    have h': "h' = pool_runs UploadHelper_run_task h2"
      using r UploadHelper_uploadPart_pool[OF ok sc s, of number part_offset] by (simp add: h2_def)
    have ok2: "UploadHelper_tasks_ok h2"
      unfolding h2_def by (rule UploadHelper_tasks_ok_schedule[OF ok sc])
    have X2: "\<forall>t \<in> set (bg_tasks h @ [?t]). is_finished t \<and> failed t \<noteq> None \<longrightarrow> exception t \<noteq> None"
      using X by (simp add: new_task_def)
    have Y2: "(\<forall>t \<in> set (bg_tasks h @ [?t]). clean_task t) \<longrightarrow> \<not> multipart_upload_aborted h"
      using Y by simp
    have P2: "parts_in_order (calls h) (part_tags h) (bg_tasks h @ [?t])"
      by (rule parts_in_order_schedule[OF P rn])
    have inv2: "UploadHelper_order_inv h2"
      by (rule UploadHelper_order_inv_step[OF ok2 pt _ _ _ _ _ X2 Y2 P2]) (simp_all add: h2_def)
    have "part_tags h' = part_tags h" "normal_part_size h' = normal_part_size h"
      "length (bg_tasks h') = Suc (length (bg_tasks h))"
      using UploadHelper_pool_runs_frame[of h2] by (simp_all add: h' h2_def)
    then show ?thesis using UploadHelper_order_inv_pool_runs[OF inv2] by (simp add: h')
  next
    case None
    then have nt: "bg_tasks h = []" using ok by (simp add: UploadHelper_tasks_ok_def)
    then have na: "\<not> multipart_upload_aborted h" using Y by simp
    note c = UploadHelper_processUploadPartRequest_cases[of ?r h, OF refl]
    show ?thesis
    proof (cases "UploadHelper_processUploadPartRequest ?r h")
      case (Thrown e h1)
      then show ?thesis using r s None na
        by (simp add: UploadHelper_uploadPart_def Let_def UploadHelper_processUploadTask_def
            andThen_def new_task_def)
    next
      case (Returned etag h1)
      then have h1: "h1 = h\<lparr>calls := calls h @ [(?r, Success etag)]\<rparr>" using c by simp
      have h': "h' = h\<lparr>calls := calls h @ [(?r, Success etag)], part_tags := part_tags h @ [etag]\<rparr>"
        using r s None na Returned h1
        by (simp add: UploadHelper_uploadPart_def Let_def UploadHelper_processUploadTask_def
            andThen_def new_task_def)
      have P': "parts_in_order (calls h @ [(?r, Success etag)]) (part_tags h @ [etag]) []"
        using P rn nt by (intro parts_in_order_inline) simp_all
      have ok': "UploadHelper_tasks_ok h'"
        using ok by (simp add: h' UploadHelper_tasks_ok_def)
      show ?thesis
        using ok' P' na nt None by (simp add: UploadHelper_order_inv_def h')
    qed
  qed
qed

text \<open>The loop of \<^verbatim>\<open>performMultipartUpload\<close>: the part numbered \<open>n\<close> is the \<open>n\<close>-th of the tags and
  tasks.  (A part of size 0 would leave the position where it is, and the loop would not
  end.)\<close>

lemma UploadHelper_order_inv_loop:
  assumes "UploadHelper_performMultipartUpload_loop number position end_position h = Some (Returned () h')"
    and "UploadHelper_order_inv h"
    and "number = of_nat (length (part_tags h) + length (bg_tasks h)) + 1"
  shows "UploadHelper_order_inv h'"
proof -
  have "UploadHelper_order_inv h
      \<and> (number = of_nat (length (part_tags h) + length (bg_tasks h)) + 1
         \<or> (position < end_position \<and> \<not> multipart_upload_aborted h
            \<and> min (position + normal_part_size h) end_position - position = 0))
      \<longrightarrow> returned (Returned () h' :: (unit, upload_helper) result)
      \<longrightarrow> UploadHelper_order_inv (final_state (Returned () h' :: (unit, upload_helper) result))"
  proof (rule UploadHelper_performMultipartUpload_loop.raw_induct[
        where P = "\<lambda>number position end_position h r. UploadHelper_order_inv h
      \<and> (number = of_nat (length (part_tags h) + length (bg_tasks h)) + 1
         \<or> (position < end_position \<and> \<not> multipart_upload_aborted h
            \<and> min (position + normal_part_size h) end_position - position = 0))
      \<longrightarrow> returned r \<longrightarrow> UploadHelper_order_inv (final_state r)", OF _ assms(1)],
      intro impI)
    fix loop number position end_position h r
    assume IH: "\<And>number position end_position h r.
        loop number position end_position h = Some r \<Longrightarrow>
        UploadHelper_order_inv h
          \<and> (number = of_nat (length (part_tags h) + length (bg_tasks h)) + 1
             \<or> (position < end_position \<and> \<not> multipart_upload_aborted h
                \<and> min (position + normal_part_size h) end_position - position = 0))
          \<longrightarrow> returned r \<longrightarrow> UploadHelper_order_inv (final_state r)"
      and body: "(if position < end_position
         then if multipart_upload_aborted h then Some (Returned () h)
              else let next_position = min (position + normal_part_size h) end_position;
                       part_size = next_position - position
                   in case UploadHelper_uploadPart number position part_size h of
                        Returned x h' \<Rightarrow> loop (number + 1) next_position end_position h'
                      | Thrown e h' \<Rightarrow> Some (Thrown e h')
         else Some (Returned () h)) = Some r"
      and pre: "UploadHelper_order_inv h
          \<and> (number = of_nat (length (part_tags h) + length (bg_tasks h)) + 1
             \<or> (position < end_position \<and> \<not> multipart_upload_aborted h
                \<and> min (position + normal_part_size h) end_position - position = 0))"
      and ret: "returned r"
    from pre have inv: "UploadHelper_order_inv h" by simp
    show "UploadHelper_order_inv (final_state r)"
    proof (cases "position < end_position \<and> \<not> multipart_upload_aborted h")
      case False
      then have "r = Returned () h" using body by (auto split: if_splits)
      then show ?thesis using inv by simp
    next
      case True
      define next_position where "next_position = min (position + normal_part_size h) end_position"
      show ?thesis
      proof (cases "next_position - position = 0")
        case stuck: True
        then have np: "next_position = position" by simp
        have "UploadHelper_uploadPart number position (next_position - position) h = Returned () h"
          using stuck by (simp add: UploadHelper_uploadPart_def)
        then have l: "loop (number + 1) next_position end_position h = Some r"
          using body True by (simp add: Let_def next_position_def)
        have "UploadHelper_order_inv h
          \<and> (number + 1 = of_nat (length (part_tags h) + length (bg_tasks h)) + 1
             \<or> (next_position < end_position \<and> \<not> multipart_upload_aborted h
                \<and> min (next_position + normal_part_size h) end_position - next_position = 0))"
          using inv True stuck np by (simp add: next_position_def)
        from IH[OF l] this ret show ?thesis by blast
      next
        case moving: False
        then have n: "number = of_nat (length (part_tags h) + length (bg_tasks h)) + 1"
          using pre by (auto simp: next_position_def)
        show ?thesis
        proof (cases "UploadHelper_uploadPart number position (next_position - position) h")
          case (Thrown e h1)
          then have "r = Thrown e h1" using body True by (simp add: Let_def next_position_def)
          then show ?thesis using ret by simp
        next
          case (Returned x h1)
          then have u: "UploadHelper_uploadPart number position (next_position - position) h
              = Returned () h1" by simp
          from UploadHelper_order_inv_uploadPart[OF inv moving n u]
          have inv1: "UploadHelper_order_inv h1"
            and len: "length (part_tags h1) + length (bg_tasks h1)
                = Suc (length (part_tags h) + length (bg_tasks h))"
            by simp_all
          have l: "loop (number + 1) next_position end_position h1 = Some r"
            using body True u by (simp add: Let_def next_position_def)
          have "number + 1 = of_nat (length (part_tags h1) + length (bg_tasks h1)) + 1"
            using n len by simp
          with IH[OF l] inv1 ret show ?thesis by blast
        qed
      qed
    qed
  qed
  then show ?thesis using assms(2,3) by simp
qed

text \<open>Collecting the tags: the tasks are read in the order in which they were added, which is
  the order of their part numbers.\<close>

lemma UploadHelper_collect_tasks_order:
  assumes "UploadHelper_collect_tasks ts h = Returned () h'"
    and "parts_in_order (calls h) (part_tags h) ts"
    and "\<forall>t \<in> set ts. is_finished t \<and> (exception t = None \<longrightarrow> clean_task t)"
  shows "tags_in_part_order h' \<and> complete_free (calls h') \<and> calls h' = calls h
       \<and> multipart_upload_aborted h' = multipart_upload_aborted h"
  using assms
proof (induction ts arbitrary: h)
  case Nil
  then have "h' = h" by simp
  then show ?case
    using parts_in_order_done[OF Nil(2)] parts_in_order_numbered[OF Nil(2)]
    by (simp add: tags_in_part_order_def)
next
  case (Cons t ts)
  from Cons.prems(1) have e: "exception t = None" by (cases "exception t") simp_all
  then have c: "clean_task t" and f: "is_finished t" using Cons.prems(3) by simp_all
  define h1 where "h1 = h\<lparr>part_tags := part_tags h @ [tag t]\<rparr>"
  have r: "UploadHelper_collect_tasks ts h1 = Returned () h'"
    using Cons.prems(1) e by (simp add: h1_def)
  have P: "parts_in_order (calls h1) (part_tags h1) ts"
    using parts_in_order_collect[OF Cons.prems(2) f c] by (simp add: h1_def)
  have "\<forall>t \<in> set ts. is_finished t \<and> (exception t = None \<longrightarrow> clean_task t)"
    using Cons.prems(3) by simp
  from Cons.IH[OF r P this] have "tags_in_part_order h'" "complete_free (calls h')"
    "calls h' = calls h1" "multipart_upload_aborted h' = multipart_upload_aborted h1"
    by blast+
  moreover have "calls h1 = calls h" "multipart_upload_aborted h1 = multipart_upload_aborted h"
    by (simp_all add: h1_def)
  ultimately show ?case by metis
qed

lemma UploadHelper_waitForAllBackGroundTasks_order:
  assumes inv: "UploadHelper_order_inv h"
    and r: "UploadHelper_waitForAllBackGroundTasks h = Returned () h'"
  shows "tags_in_part_order h' \<and> complete_free (calls h') \<and> \<not> multipart_upload_aborted h'"
proof (cases "schedule h")
  case None
  then have h': "h' = h" using r by (simp add: UploadHelper_waitForAllBackGroundTasks_def)
  from inv None have nt: "bg_tasks h = []"
    by (simp add: UploadHelper_order_inv_def UploadHelper_tasks_ok_def)
  from inv nt have P: "parts_in_order (calls h) (part_tags h) []"
    and na: "\<not> multipart_upload_aborted h"
    by (simp_all add: UploadHelper_order_inv_def)
  show ?thesis
    using parts_in_order_done[OF P] parts_in_order_numbered[OF P] na
    by (simp add: h' tags_in_part_order_def)
next
  case (Some pool)
  define h1 where "h1 = UploadHelper_wait_finished h"
  have c: "UploadHelper_collect_tasks (bg_tasks h1) h1 = Returned () h'"
    using r Some by (simp add: UploadHelper_waitForAllBackGroundTasks_def Let_def h1_def)
  have inv1: "UploadHelper_order_inv h1"
    unfolding h1_def by (rule UploadHelper_order_inv_wait_finished[OF inv])
  from inv have "map task_id (bg_tasks h) = [0..<length (bg_tasks h)]"
    by (simp add: UploadHelper_order_inv_def UploadHelper_tasks_ok_def)
  from UploadHelper_wait_finished_all[OF this]
  have fin: "\<forall>t \<in> set (bg_tasks h1). is_finished t" by (simp add: h1_def)
  from inv1 have X: "\<forall>t \<in> set (bg_tasks h1). is_finished t \<and> failed t \<noteq> None \<longrightarrow> exception t \<noteq> None"
    and Y: "(\<forall>t \<in> set (bg_tasks h1). clean_task t) \<longrightarrow> \<not> multipart_upload_aborted h1"
    and P: "parts_in_order (calls h1) (part_tags h1) (bg_tasks h1)"
    by (simp_all add: UploadHelper_order_inv_def)
  have a: "\<forall>t \<in> set (bg_tasks h1). is_finished t \<and> (exception t = None \<longrightarrow> clean_task t)"
    using fin X unfolding clean_task_def by blast
  note k = UploadHelper_collect_tasks_order[OF c P a]
  have ex: "\<forall>t \<in> set ts. exception t = None"
    if "UploadHelper_collect_tasks ts s = Returned () s'" for ts s s'
    using that by (induction ts arbitrary: s) (auto split: option.splits)
  from ex[OF c] a have "\<forall>t \<in> set (bg_tasks h1). clean_task t" by blast
  with Y have "\<not> multipart_upload_aborted h1" by simp
  with k show ?thesis by metis
qed

text \<open>The request of \<^verbatim>\<open>completeMultipartUpload\<close> lists the tags collected, and the retries
  repeat it.\<close>

lemma UploadHelper_completeMultipartUpload_order:
  assumes "tags_in_part_order h" and "complete_free (calls h)"
  shows "tags_in_part_order (final_state (UploadHelper_completeMultipartUpload h))
       \<and> completes_with_tags (final_state (UploadHelper_completeMultipartUpload h))"
proof -
  have cf: "completes_with_tags h"
    using assms(2) unfolding completes_with_tags_def complete_free_def
    by (auto split: request.splits)
  show ?thesis
  proof (cases "multipart_upload_aborted h \<or> part_tags h = []")
    case True
    then show ?thesis using assms(1) cf by (auto simp: UploadHelper_completeMultipartUpload_def)
  next
    case False
    define request where "request = CompleteMultipartUploadRequest (multipart_upload_id h)
                        (CompletedMultipartUpload (part_tags h))"
    define m where "m = max (max_unexpected_write_error_retries h) 1"
    have e: "UploadHelper_completeMultipartUpload h
        = UploadHelper_completeMultipartUpload_loop request m 1 h"
      using False by (simp add: UploadHelper_completeMultipartUpload_def Let_def request_def m_def)
    obtain cs where f: "final_state (UploadHelper_completeMultipartUpload_loop request m 1 h)
          = h\<lparr>calls := calls h @ cs\<rparr>" and cs: "\<forall>c \<in> set cs. fst c = request"
      using UploadHelper_complete_loop_calls[of request m 1 h] by blast
    have q: "\<forall>c \<in> set cs. part_answer c = None"
      using cs by (simp add: part_answer_def part_number_of_def request_def)
    have t: "tags_in_part_order (h\<lparr>calls := calls h @ cs\<rparr>)"
      using assms(1) part_answers_quiet[OF q] by (simp add: tags_in_part_order_def)
    have "completes_with_tags (h\<lparr>calls := calls h @ cs\<rparr>)"
      using cf cs unfolding completes_with_tags_def
      by (auto simp: request_def split: request.splits)
    with t show ?thesis by (simp add: e f)
  qed
qed

lemma UploadHelper_before_parts_inv:
  "UploadHelper_before_parts h \<Longrightarrow> UploadHelper_order_inv h"
  by (simp add: UploadHelper_before_parts_def UploadHelper_order_inv_def UploadHelper_tasks_ok_def
      parts_in_order_empty)

lemma UploadHelper_calculatePartSize_before_parts:
  assumes "UploadHelper_before_parts h"
  shows "UploadHelper_before_parts (final_state (UploadHelper_calculatePartSize total_size h))"
  using assms
  by (auto simp: UploadHelper_calculatePartSize_def Let_def UploadHelper_before_parts_def
      split: option.splits prod.splits)

lemma UploadHelper_createMultipartUpload_before_parts:
  assumes "UploadHelper_before_parts h"
  shows "UploadHelper_before_parts (final_state (UploadHelper_createMultipartUpload h))"
  using assms
  by (auto simp: UploadHelper_createMultipartUpload_def send_def Let_def
      UploadHelper_before_parts_def part_answer_def part_number_of_def complete_free_def
      List.map_filter_def part_answers_def split: outcome.splits)

lemma UploadHelper_performMultipartUpload_order:
  assumes "UploadHelper_performMultipartUpload start_offset total_size h = Some (Returned () h')"
    and "UploadHelper_before_parts h"
  shows "tags_in_part_order h' \<and> completes_with_tags h'"
proof -
  note b1 = UploadHelper_calculatePartSize_before_parts[OF assms(2), of total_size]
  show ?thesis
  proof (cases "UploadHelper_calculatePartSize total_size h")
    case (Thrown e h1)
    then show ?thesis using assms(1)
      by (simp add: UploadHelper_performMultipartUpload_def andThenOpt_def)
  next
    case r1: (Returned x1 h1)
    then have n1: "UploadHelper_before_parts h1" using b1 by simp
    note b2 = UploadHelper_createMultipartUpload_before_parts[OF n1]
    show ?thesis
    proof (cases "UploadHelper_createMultipartUpload h1")
      case (Thrown e h2)
      then show ?thesis using assms(1) r1
        by (simp add: UploadHelper_performMultipartUpload_def andThenOpt_def)
    next
      case r2: (Returned x2 h2)
      then have bp: "UploadHelper_before_parts h2" using b2 by simp
      then have n2: "UploadHelper_order_inv h2" by (rule UploadHelper_before_parts_inv)
      have al: "(1::size_t) = of_nat (length (part_tags h2) + length (bg_tasks h2)) + 1"
        using bp by (simp add: UploadHelper_before_parts_def)
      show ?thesis
      proof (cases "UploadHelper_performMultipartUpload_loop 1 start_offset (start_offset + total_size) h2")
        case None
        then show ?thesis using assms(1) r1 r2
          by (simp add: UploadHelper_performMultipartUpload_def andThenOpt_def)
      next
        case (Some r3)
        show ?thesis
        proof (cases r3)
          case (Thrown e h3)
          then show ?thesis using assms(1) r1 r2 Some
            by (simp add: UploadHelper_performMultipartUpload_def andThenOpt_def)
        next
          case r3: (Returned x3 h3)
          then have "UploadHelper_performMultipartUpload_loop 1 start_offset (start_offset + total_size) h2
              = Some (Returned () h3)" using Some by simp
          from UploadHelper_order_inv_loop[OF this n2 al]
          have n3: "UploadHelper_order_inv h3" .
          show ?thesis
          proof (cases "UploadHelper_waitForAllBackGroundTasks h3")
            case (Thrown e h4)
            then show ?thesis using assms(1) r1 r2 Some r3
              by (simp add: UploadHelper_performMultipartUpload_def andThenOpt_def)
          next
            case r4: (Returned x4 h4)
            then have "UploadHelper_waitForAllBackGroundTasks h3 = Returned () h4" by simp
            from UploadHelper_waitForAllBackGroundTasks_order[OF n3 this]
            have t: "tags_in_part_order h4" and cf: "complete_free (calls h4)" by simp_all
            have eq: "UploadHelper_completeMultipartUpload h4 = Returned () h'"
              using assms(1) r1 r2 Some r3 r4
              by (simp add: UploadHelper_performMultipartUpload_def andThenOpt_def)
            show ?thesis
              using UploadHelper_completeMultipartUpload_order[OF t cf] unfolding eq by simp
          qed
        qed
      qed
    qed
  qed
qed

lemma UploadHelper_before_parts_calls:
  assumes "UploadHelper_before_parts h" and "part_number_of request = None"
    and "case request of CompleteMultipartUploadRequest _ _ \<Rightarrow> False | _ \<Rightarrow> True"
  shows "UploadHelper_before_parts (h\<lparr>calls := calls h @ [(request, out)]\<rparr>)"
  using assms
  by (simp add: UploadHelper_before_parts_def part_answers_def List.map_filter_def
      part_answer_def complete_free_def)

lemma UploadHelper_before_parts_listed:
  assumes "UploadHelper_before_parts h"
  shows "tags_in_part_order h \<and> completes_with_tags h"
proof -
  from assms have "part_answers (calls h) = []" "part_tags h = []" "complete_free (calls h)"
    by (simp_all add: UploadHelper_before_parts_def)
  then show ?thesis
    unfolding tags_in_part_order_def completes_with_tags_def complete_free_def
    by (auto split: request.splits)
qed

lemma tags_listed_calls:
  assumes "tags_in_part_order h \<and> completes_with_tags h" and "part_number_of request = None"
    and "case request of CompleteMultipartUploadRequest _ _ \<Rightarrow> False | _ \<Rightarrow> True"
  shows "tags_in_part_order (h\<lparr>calls := calls h @ [(request, out)]\<rparr>)
       \<and> completes_with_tags (h\<lparr>calls := calls h @ [(request, out)]\<rparr>)"
  using assms
  unfolding tags_in_part_order_def completes_with_tags_def
  by (auto simp: part_answers_def List.map_filter_def part_answer_def split: request.splits)

lemma UploadHelper_processPutRequest_loop_order:
  "CopyDataToFileHelper_processPutRequest_loop request max_retries retries h = Some (Returned () h1)
    \<Longrightarrow> UploadHelper_before_parts h \<Longrightarrow> part_number_of request = None
    \<Longrightarrow> (case request of CompleteMultipartUploadRequest _ _ \<Rightarrow> False | _ \<Rightarrow> True)
    \<Longrightarrow> tags_in_part_order h1 \<and> completes_with_tags h1"
proof (induction request max_retries retries h rule: CopyDataToFileHelper_processPutRequest_loop.induct)
  case (1 request max_retries retries h)
  obtain out h' where s: "send request h = (out, h')" by (cases "send request h")
  then have h': "h' = h\<lparr>calls := calls h @ [(request, out)]\<rparr>" by (auto simp: send_def Let_def)
  have n': "UploadHelper_before_parts h'"
    unfolding h' by (rule UploadHelper_before_parts_calls[OF "1.prems"(2,3,4)])
  note e = "1.prems"(1)[unfolded CopyDataToFileHelper_processPutRequest_loop.simps[of request max_retries retries h]]
  show ?case
  proof (cases out)
    case (Success x)
    then have "h1 = h'" using e s by simp
    then show ?thesis using UploadHelper_before_parts_listed[OF n'] by simp
  next
    case (Failure err)
    show ?thesis
    proof (cases "GetExceptionName err = ''EntityTooLarge'' \<or> GetExceptionName err = ''InvalidRequest''")
      case True
      then have "UploadHelper_performMultipartUpload (offset h') (size' h') h' = Some (Returned () h1)"
        using e s Failure by (simp add: CopyDataToFileHelper_performMultipartUpload_def)
      from UploadHelper_performMultipartUpload_order[OF this n'] show ?thesis .
    next
      case nf: False
      show ?thesis
      proof (cases "GetErrorType err = NO_SUCH_KEY \<and> retries < max_retries")
        case True
        then have "CopyDataToFileHelper_processPutRequest_loop request max_retries (retries + 1) h'
            = Some (Returned () h1)"
          using e s Failure nf by simp
        from "1.IH"[OF s[symmetric] Failure nf True this n' "1.prems"(3,4)] show ?thesis .
      next
        case False
        then show ?thesis using e s Failure nf by auto
      qed
    qed
  qed
qed

lemma UploadHelper_processCopyRequest_loop_order:
  "CopyFileHelper_processCopyRequest_loop request max_retries retries h = Some (Returned () h1)
    \<Longrightarrow> UploadHelper_before_parts h \<Longrightarrow> part_number_of request = None
    \<Longrightarrow> (case request of CompleteMultipartUploadRequest _ _ \<Rightarrow> False | _ \<Rightarrow> True)
    \<Longrightarrow> tags_in_part_order h1 \<and> completes_with_tags h1"
proof (induction request max_retries retries h rule: CopyFileHelper_processCopyRequest_loop.induct)
  case (1 request max_retries retries h)
  obtain out h' where s: "send request h = (out, h')" by (cases "send request h")
  then have h': "h' = h\<lparr>calls := calls h @ [(request, out)]\<rparr>" by (auto simp: send_def Let_def)
  have n': "UploadHelper_before_parts h'"
    unfolding h' by (rule UploadHelper_before_parts_calls[OF "1.prems"(2,3,4)])
  note e = "1.prems"(1)[unfolded CopyFileHelper_processCopyRequest_loop.simps[of request max_retries retries h]]
  show ?case
  proof (cases out)
    case (Success x)
    then have "h1 = h'" using e s by simp
    then show ?thesis using UploadHelper_before_parts_listed[OF n'] by simp
  next
    case (Failure err)
    show ?thesis
    proof (cases "GetExceptionName err = ''EntityTooLarge'' \<or> GetExceptionName err = ''InvalidRequest''")
      case True
      then have "UploadHelper_performMultipartUpload (offset h') (size' h') h' = Some (Returned () h1)"
        using e s Failure by (simp add: CopyFileHelper_performMultipartUploadCopy_def)
      from UploadHelper_performMultipartUpload_order[OF this n'] show ?thesis .
    next
      case nf: False
      show ?thesis
      proof (cases "GetErrorType err = NO_SUCH_KEY \<and> retries < max_retries")
        case True
        then have "CopyFileHelper_processCopyRequest_loop request max_retries (retries + 1) h'
            = Some (Returned () h1)"
          using e s Failure nf by simp
        from "1.IH"[OF s[symmetric] Failure nf True this n' "1.prems"(3,4)] show ?thesis .
      next
        case False
        then show ?thesis using e s Failure nf by auto
      qed
    qed
  qed
qed

lemma UploadHelper_new_before_parts:
  "UploadHelper_before_parts (UploadHelper_new cls client offset0 size0 settings0 check0 retries0 schedule0)"
  by (simp add: UploadHelper_before_parts_def UploadHelper_new_def)

lemma UploadHelper_after_upload_order:
  assumes "andThenOpt job
       (\<lambda>_ h. if check_objects_after_upload h then Some (UploadHelper_checkObjectAfterUpload h)
               else Some (Returned () h)) = Some (Returned () h1)"
    and "\<And>h'. job = Some (Returned () h') \<Longrightarrow> tags_in_part_order h' \<and> completes_with_tags h'"
  shows "tags_in_part_order h1 \<and> completes_with_tags h1"
proof (cases job)
  case None
  then show ?thesis using assms(1) by (simp add: andThenOpt_def)
next
  case (Some r')
  show ?thesis
  proof (cases r')
    case (Thrown e h')
    then show ?thesis using assms(1) Some by (simp add: andThenOpt_def)
  next
    case (Returned x h')
    then have n: "tags_in_part_order h' \<and> completes_with_tags h'" using assms(2) Some by simp
    have c: "UploadHelper_checkObjectAfterUpload h' = Returned () h1 \<or> h1 = h'"
      using assms(1) Some Returned by (auto simp: andThenOpt_def split: if_splits)
    from c show ?thesis
    proof
      assume "h1 = h'"
      then show ?thesis using n by simp
    next
      assume k: "UploadHelper_checkObjectAfterUpload h' = Returned () h1"
      obtain out where "h1 = h'\<lparr>calls := calls h' @ [(HeadObjectRequest, out)]\<rparr>"
        using k
        by (auto simp: UploadHelper_checkObjectAfterUpload_def checkObjectExists_def send_def Let_def
            split: outcome.splits)
      then show ?thesis
        using tags_listed_calls[OF n, of HeadObjectRequest out] by (simp add: part_number_of_def)
    qed
  qed
qed

lemma CopyDataToFileHelper_performCopy_order:
  assumes "CopyDataToFileHelper_performCopy h = Some (Returned () h1)" and "UploadHelper_before_parts h"
  shows "tags_in_part_order h1 \<and> completes_with_tags h1"
proof (rule UploadHelper_after_upload_order[OF assms(1)[unfolded CopyDataToFileHelper_performCopy_def]])
  fix h'
  assume a: "(if size' h \<le> max_single_part_upload_size (settings h)
        then CopyDataToFileHelper_performSinglepartUpload h
        else CopyDataToFileHelper_performMultipartUpload h) = Some (Returned () h')"
  show "tags_in_part_order h' \<and> completes_with_tags h'"
  proof (cases "size' h \<le> max_single_part_upload_size (settings h)")
    case True
    then have "CopyDataToFileHelper_processPutRequest_loop (CopyDataToFileHelper_fillPutRequest h)
        (max (max_unexpected_write_error_retries h) 1) 1 h = Some (Returned () h')"
      using a by (simp add: CopyDataToFileHelper_performSinglepartUpload_def
          CopyDataToFileHelper_processPutRequest_def)
    from UploadHelper_processPutRequest_loop_order[OF this assms(2)] show ?thesis
      by (simp add: CopyDataToFileHelper_fillPutRequest_def part_number_of_def)
  next
    case False
    then have "UploadHelper_performMultipartUpload (offset h) (size' h) h = Some (Returned () h')"
      using a by (simp add: CopyDataToFileHelper_performMultipartUpload_def)
    from UploadHelper_performMultipartUpload_order[OF this assms(2)] show ?thesis .
  qed
qed

lemma CopyFileHelper_performCopy_order:
  assumes "CopyFileHelper_performCopy h = Some (Returned () h1)" and "UploadHelper_before_parts h"
  shows "tags_in_part_order h1 \<and> completes_with_tags h1"
proof (rule UploadHelper_after_upload_order[OF assms(1)[unfolded CopyFileHelper_performCopy_def]])
  fix h'
  assume a: "(if size' h \<le> max_single_operation_copy_size (settings h)
        then CopyFileHelper_performSingleOperationCopy h
        else CopyFileHelper_performMultipartUploadCopy h) = Some (Returned () h')"
  show "tags_in_part_order h' \<and> completes_with_tags h'"
  proof (cases "size' h \<le> max_single_operation_copy_size (settings h)")
    case True
    then have "CopyFileHelper_processCopyRequest_loop CopyObjectRequest
        (max (max_unexpected_write_error_retries h) 1) 1 h = Some (Returned () h')"
      using a by (simp add: CopyFileHelper_performSingleOperationCopy_def
          CopyFileHelper_processCopyRequest_def)
    from UploadHelper_processCopyRequest_loop_order[OF this assms(2)] show ?thesis
      by (simp add: part_number_of_def)
  next
    case False
    then have "UploadHelper_performMultipartUpload (offset h) (size' h) h = Some (Returned () h')"
      using a by (simp add: CopyFileHelper_performMultipartUploadCopy_def)
    from UploadHelper_performMultipartUpload_order[OF this assms(2)] show ?thesis .
  qed
qed

lemma copy_jobs_order:
  assumes "copyDataToS3File client offset0 size0 settings0 check0 retries0 schedule0 = Some (Returned () h)
         \<or> copyS3File client offset0 size0 settings0 check0 retries0 schedule0 = Some (Returned () h)"
  shows "tags_in_part_order h \<and> completes_with_tags h"
  using assms CopyDataToFileHelper_performCopy_order[OF _ UploadHelper_new_before_parts]
    CopyFileHelper_performCopy_order[OF _ UploadHelper_new_before_parts]
  unfolding copyDataToS3File_def copyS3File_def by blast

subsection \<open>\<^verbatim>\<open>WriteBufferFromS3\<close>\<close>

lemma WriteBufferFromS3_put_loop_calls:
  "\<exists>cs. final_state (WriteBufferFromS3_processPutRequest_loop request max_retry i w)
          = w\<lparr>calls := calls w @ cs\<rparr> \<and> (\<forall>c \<in> set cs. fst c = request)"
proof (induction request max_retry i w rule: WriteBufferFromS3_processPutRequest_loop.induct)
  case (1 request max_retry i w)
  show ?case
  proof (cases "i < max_retry")
    case False
    then have "final_state (WriteBufferFromS3_processPutRequest_loop request max_retry i w)
        = w\<lparr>calls := calls w @ []\<rparr>"
      by (subst WriteBufferFromS3_processPutRequest_loop.simps) simp
    then show ?thesis by (intro exI[of _ "[]"]) simp
  next
    case True
    obtain out w1 where s: "send request w = (out, w1)" by (cases "send request w")
    then have w1: "w1 = w\<lparr>calls := calls w @ [(request, out)]\<rparr>" by (auto simp: send_def Let_def)
    show ?thesis
    proof (cases out)
      case (Success x)
      then have "final_state (WriteBufferFromS3_processPutRequest_loop request max_retry i w)
          = w\<lparr>calls := calls w @ [(request, out)]\<rparr>"
        using True s w1 by (subst WriteBufferFromS3_processPutRequest_loop.simps) simp
      then show ?thesis by (intro exI[of _ "[(request, out)]"]) simp
    next
      case (Failure err)
      show ?thesis
      proof (cases "GetErrorType err = NO_SUCH_KEY")
        case False
        then have "final_state (WriteBufferFromS3_processPutRequest_loop request max_retry i w)
            = w\<lparr>calls := calls w @ [(request, out)]\<rparr>"
          using True s w1 Failure by (subst WriteBufferFromS3_processPutRequest_loop.simps) simp
        then show ?thesis by (intro exI[of _ "[(request, out)]"]) simp
      next
        case nsk: True
        from "1.IH"[OF True s[symmetric] Failure nsk]
        obtain cs where cs: "final_state (WriteBufferFromS3_processPutRequest_loop request max_retry (i + 1) w1)
            = w1\<lparr>calls := calls w1 @ cs\<rparr>" "\<forall>c \<in> set cs. fst c = request" by blast
        have "final_state (WriteBufferFromS3_processPutRequest_loop request max_retry i w)
            = final_state (WriteBufferFromS3_processPutRequest_loop request max_retry (i + 1) w1)"
          using True s Failure nsk by (subst WriteBufferFromS3_processPutRequest_loop.simps) simp
        then have "final_state (WriteBufferFromS3_processPutRequest_loop request max_retry i w)
            = w\<lparr>calls := calls w @ ((request, out) # cs)\<rparr>"
          using cs(1) w1 by simp
        then show ?thesis using cs(2) by (intro exI[of _ "(request, out) # cs"]) simp
      qed
    qed
  qed
qed

lemma WriteBufferFromS3_complete_loop_calls:
  "\<exists>cs. final_state (WriteBufferFromS3_completeMultipartUpload_loop request max_retry i w)
          = w\<lparr>calls := calls w @ cs\<rparr> \<and> (\<forall>c \<in> set cs. fst c = request)"
proof (induction request max_retry i w rule: WriteBufferFromS3_completeMultipartUpload_loop.induct)
  case (1 request max_retry i w)
  show ?case
  proof (cases "i < max_retry")
    case False
    then have "final_state (WriteBufferFromS3_completeMultipartUpload_loop request max_retry i w)
        = w\<lparr>calls := calls w @ []\<rparr>"
      by (subst WriteBufferFromS3_completeMultipartUpload_loop.simps) simp
    then show ?thesis by (intro exI[of _ "[]"]) simp
  next
    case True
    obtain out w1 where s: "send request w = (out, w1)" by (cases "send request w")
    then have w1: "w1 = w\<lparr>calls := calls w @ [(request, out)]\<rparr>" by (auto simp: send_def Let_def)
    show ?thesis
    proof (cases out)
      case (Success x)
      then have "final_state (WriteBufferFromS3_completeMultipartUpload_loop request max_retry i w)
          = w\<lparr>calls := calls w @ [(request, out)]\<rparr>"
        using True s w1 by (subst WriteBufferFromS3_completeMultipartUpload_loop.simps) simp
      then show ?thesis by (intro exI[of _ "[(request, out)]"]) simp
    next
      case (Failure err)
      show ?thesis
      proof (cases "GetErrorType err = NO_SUCH_KEY")
        case False
        then have "final_state (WriteBufferFromS3_completeMultipartUpload_loop request max_retry i w)
            = w\<lparr>calls := calls w @ [(request, out)]\<rparr>"
          using True s w1 Failure by (subst WriteBufferFromS3_completeMultipartUpload_loop.simps) simp
        then show ?thesis by (intro exI[of _ "[(request, out)]"]) simp
      next
        case nsk: True
        from "1.IH"[OF True s[symmetric] Failure nsk]
        obtain cs where cs: "final_state (WriteBufferFromS3_completeMultipartUpload_loop request max_retry (i + 1) w1)
            = w1\<lparr>calls := calls w1 @ cs\<rparr>" "\<forall>c \<in> set cs. fst c = request" by blast
        have "final_state (WriteBufferFromS3_completeMultipartUpload_loop request max_retry i w)
            = final_state (WriteBufferFromS3_completeMultipartUpload_loop request max_retry (i + 1) w1)"
          using True s Failure nsk by (subst WriteBufferFromS3_completeMultipartUpload_loop.simps) simp
        then have "final_state (WriteBufferFromS3_completeMultipartUpload_loop request max_retry i w)
            = w\<lparr>calls := calls w @ ((request, out) # cs)\<rparr>"
          using cs(1) w1 by simp
        then show ?thesis using cs(2) by (intro exI[of _ "(request, out) # cs"]) simp
      qed
    qed
  qed
qed


lemma WriteBufferFromS3_run_task_cases [case_names idle put no_request accepted refused]:
  obtains
    (idle) "WriteBufferFromS3_run_task i w = w"
      "0 < i \<longrightarrow> (\<forall>task. find (\<lambda>t. task_id t = i) (upload_object_tasks w) = Some task \<longrightarrow> is_finished task)"
  | (put) task cs e where "i = 0" "put_object_task w = Some task" "\<not> is_finished task"
      "\<forall>c \<in> set cs. req task = Some (fst c)"
      "WriteBufferFromS3_run_task i w
         = w\<lparr>calls := calls w @ cs, put_object_task := Some (task\<lparr>exception := e, is_finished := True\<rparr>)\<rparr>"
  | (no_request) task where "0 < i" "find (\<lambda>t. task_id t = i) (upload_object_tasks w) = Some task"
      "\<not> is_finished task" "req task = None"
  | (accepted) task request etag where "0 < i"
      "find (\<lambda>t. task_id t = i) (upload_object_tasks w) = Some task"
      "\<not> is_finished task" "req task = Some request"
      "client_ptr w (calls w) request = Success etag"
      "WriteBufferFromS3_run_task i w
         = w\<lparr>calls := calls w @ [(request, Success etag)],
             upload_object_tasks := update_task i (\<lambda>t. t\<lparr>tag := etag, is_finished := True\<rparr>)
                                      (upload_object_tasks w),
             num_finished_bg_tasks := num_finished_bg_tasks w + 1\<rparr>"
  | (refused) task request err where "0 < i"
      "find (\<lambda>t. task_id t = i) (upload_object_tasks w) = Some task"
      "\<not> is_finished task" "req task = Some request"
      "client_ptr w (calls w) request = Failure err"
      "WriteBufferFromS3_run_task i w
         = w\<lparr>calls := calls w @ [(request, Failure err)],
             upload_object_tasks := update_task i
                 (\<lambda>t. t\<lparr>exception := Some (S3Exception (GetErrorType err)), is_finished := True\<rparr>)
                 (upload_object_tasks w),
             num_finished_bg_tasks := num_finished_bg_tasks w + 1\<rparr>"
proof (cases "i = 0")
  case zero: True
  show ?thesis
  proof (cases "put_object_task w")
    case None
    then have "WriteBufferFromS3_run_task i w = w" using zero by (simp add: WriteBufferFromS3_run_task_def)
    then show ?thesis using zero by (intro idle) simp_all
  next
    case (Some task)
    show ?thesis
    proof (cases "is_finished task")
      case True
      then have "WriteBufferFromS3_run_task i w = w"
        using zero Some by (simp add: WriteBufferFromS3_run_task_def)
      then show ?thesis using zero by (intro idle) simp_all
    next
      case nf: False
      have "\<exists>cs. final_state (WriteBufferFromS3_processPutRequest task w) = w\<lparr>calls := calls w @ cs\<rparr>
            \<and> (\<forall>c \<in> set cs. req task = Some (fst c))"
      proof (cases "req task")
        case None
        then have "final_state (WriteBufferFromS3_processPutRequest task w) = w\<lparr>calls := calls w @ []\<rparr>"
          by (simp add: WriteBufferFromS3_processPutRequest_def)
        then show ?thesis by (intro exI[of _ "[]"]) simp
      next
        case (Some request)
        then show ?thesis
          using WriteBufferFromS3_put_loop_calls[of request "max (max_unexpected_write_error_retries w) 1" 0 w]
          by (auto simp: WriteBufferFromS3_processPutRequest_def)
      qed
      then obtain cs where cs: "final_state (WriteBufferFromS3_processPutRequest task w)
            = w\<lparr>calls := calls w @ cs\<rparr>" "\<forall>c \<in> set cs. req task = Some (fst c)" by blast
      show ?thesis
      proof (cases "WriteBufferFromS3_processPutRequest task w")
        case (Returned x w1)
        then have "w1 = w\<lparr>calls := calls w @ cs\<rparr>" using cs(1) by simp
        then have "WriteBufferFromS3_run_task i w
            = w\<lparr>calls := calls w @ cs, put_object_task := Some (task\<lparr>exception := exception task, is_finished := True\<rparr>)\<rparr>"
          using zero Some nf Returned by (simp add: WriteBufferFromS3_run_task_def)
        then show ?thesis by (rule put[OF zero Some nf cs(2)])
      next
        case (Thrown e w1)
        then have "w1 = w\<lparr>calls := calls w @ cs\<rparr>" using cs(1) by simp
        then have "WriteBufferFromS3_run_task i w
            = w\<lparr>calls := calls w @ cs, put_object_task := Some (task\<lparr>exception := Some e, is_finished := True\<rparr>)\<rparr>"
          using zero Some nf Thrown by (simp add: WriteBufferFromS3_run_task_def)
        then show ?thesis by (rule put[OF zero Some nf cs(2)])
      qed
    qed
  qed
next
  case nz: False
  then have pos: "0 < i" by simp
  show ?thesis
  proof (cases "find (\<lambda>t. task_id t = i) (upload_object_tasks w)")
    case None
    then have "WriteBufferFromS3_run_task i w = w" using nz by (simp add: WriteBufferFromS3_run_task_def)
    then show ?thesis using None by (intro idle) simp_all
  next
    case found: (Some task)
    show ?thesis
    proof (cases "is_finished task")
      case True
      then have "WriteBufferFromS3_run_task i w = w"
        using nz found by (simp add: WriteBufferFromS3_run_task_def)
      then show ?thesis using found True by (intro idle) simp_all
    next
      case nf: False
      show ?thesis
      proof (cases "req task")
        case None
        show ?thesis by (rule no_request[OF pos found nf None])
      next
        case rq: (Some request)
        show ?thesis
        proof (cases "client_ptr w (calls w) request")
          case (Success etag)
          show ?thesis
            by (rule accepted[OF pos found nf rq Success])
               (simp add: WriteBufferFromS3_run_task_def WriteBufferFromS3_task_finish_notify_def
                 WriteBufferFromS3_processUploadRequest_def nz found nf rq Success send_def Let_def
                 update_task_twice)
        next
          case (Failure err)
          show ?thesis
            by (rule refused[OF pos found nf rq Failure])
               (simp add: WriteBufferFromS3_run_task_def WriteBufferFromS3_task_finish_notify_def
                 WriteBufferFromS3_processUploadRequest_def nz found nf rq Failure send_def Let_def
                 update_task_twice)
        qed
      qed
    qed
  qed
qed

lemma WriteBufferFromS3_order_inv_step:
  assumes inv: "WriteBufferFromS3_order_inv w"
    and "schedule w' = schedule w" "part_tags w' = part_tags w" "part_number w' = part_number w"
      "num_added_bg_tasks w' = num_added_bg_tasks w"
    and "upload_object_tasks (w'::write_buffer) = ts" and "calls w' = cs"
    and ids: "map task_id ts = map task_id (upload_object_tasks w)"
    and nf: "\<forall>t \<in> set ts. failed t = None"
    and put: "\<forall>task request. put_object_task w' = Some task \<longrightarrow> req task = Some request \<longrightarrow>
           part_number_of request = None
           \<and> (case request of CompleteMultipartUploadRequest _ _ \<Rightarrow> False | _ \<Rightarrow> True)"
    and P: "parts_in_order cs (part_tags w) ts"
  shows "WriteBufferFromS3_order_inv w'"
proof -
  have len: "length ts = length (upload_object_tasks w)"
    using ids by (metis length_map)
  have D: "\<forall>t \<in> set ts. 0 < task_id t \<and> int (task_id t) \<le> num_added_bg_tasks w \<and> failed t = None"
  proof
    fix t assume t: "t \<in> set ts"
    then have "task_id t \<in> set (map task_id ts)" by (rule imageI[of t "set ts" task_id, folded set_map])
    then have "task_id t \<in> set (map task_id (upload_object_tasks w))" using ids by simp
    then obtain t' where "t' \<in> set (upload_object_tasks w)" "task_id t' = task_id t" by auto
    then have "0 < task_id t \<and> int (task_id t) \<le> num_added_bg_tasks w"
      using inv unfolding WriteBufferFromS3_order_inv_def by metis
    then show "0 < task_id t \<and> int (task_id t) \<le> num_added_bg_tasks w \<and> failed t = None"
      using nf t by blast
  qed
  have A: "schedule w = None \<longrightarrow> ts = []"
    using inv len by (auto simp: WriteBufferFromS3_order_inv_def)
  have B: "part_number w = of_nat (length (part_tags w) + length ts)"
    using inv len by (simp add: WriteBufferFromS3_order_inv_def)
  have C: "distinct (map task_id ts)" using inv ids by (simp add: WriteBufferFromS3_order_inv_def)
  have E: "0 \<le> num_added_bg_tasks w" using inv by (simp add: WriteBufferFromS3_order_inv_def)
  show ?thesis
    unfolding WriteBufferFromS3_order_inv_def assms(2-7)
    using A B C D E put P by blast
qed

lemma WriteBufferFromS3_order_inv_run_task:
  assumes "WriteBufferFromS3_order_inv w"
  shows "WriteBufferFromS3_order_inv (WriteBufferFromS3_run_task i w)"
proof -
  from assms have d: "distinct (map task_id (upload_object_tasks w))"
    and nf: "\<forall>t \<in> set (upload_object_tasks w). failed t = None"
    and put: "\<forall>task request. put_object_task w = Some task \<longrightarrow> req task = Some request \<longrightarrow>
           part_number_of request = None
           \<and> (case request of CompleteMultipartUploadRequest _ _ \<Rightarrow> False | _ \<Rightarrow> True)"
    and P: "parts_in_order (calls w) (part_tags w) (upload_object_tasks w)"
    by (simp_all add: WriteBufferFromS3_order_inv_def)
  note np = parts_in_order_numbered[OF P]
  show ?thesis
  proof (cases rule: WriteBufferFromS3_run_task_cases[of i w])
    case idle
    then show ?thesis using assms by simp
  next
    case (put task cs e)
    have q: "part_number_of (fst c) = None
        \<and> (case fst c of CompleteMultipartUploadRequest _ _ \<Rightarrow> False | _ \<Rightarrow> True)"
      if "c \<in> set cs" for c
      using put(2,4) that \<open>\<forall>task request. put_object_task w = Some task \<longrightarrow> _\<close> by blast
    have q1: "\<forall>c \<in> set cs. part_answer c = None" using q by (simp add: part_answer_def)
    have q2: "complete_free cs" using q unfolding complete_free_def by blast
    have P': "parts_in_order (calls w @ cs) (part_tags w) (upload_object_tasks w)"
      by (rule parts_in_order_calls[OF P q1 q2])
    have put': "\<forall>task' request. Some (task\<lparr>exception := e, is_finished := True\<rparr>) = Some task'
          \<longrightarrow> req task' = Some request \<longrightarrow>
           part_number_of request = None
           \<and> (case request of CompleteMultipartUploadRequest _ _ \<Rightarrow> False | _ \<Rightarrow> True)"
      using \<open>\<forall>task request. put_object_task w = Some task \<longrightarrow> _\<close> put(2) by auto
    show ?thesis
      by (rule WriteBufferFromS3_order_inv_step[OF assms _ _ _ _ _ _ _ nf _ P'])
         (simp_all add: put(5) put')
  next
    case (no_request task)
    then show ?thesis
      using tasks_numbered_member[of "length (part_tags w)" "upload_object_tasks w" task] np
        find_task_member[OF no_request(2)] by auto
  next
    case (accepted task request etag)
    let ?f = "\<lambda>t. t\<lparr>tag := etag, is_finished := True\<rparr>"
    have P': "parts_in_order (calls w @ [(request, Success etag)]) (part_tags w)
        (update_task i ?f (upload_object_tasks w))"
      by (rule parts_in_order_accepted[OF P d accepted(2,3,4)])
    have nf': "\<forall>t \<in> set (update_task i ?f (upload_object_tasks w)). failed t = None"
    proof (intro update_task_all)
      fix t assume "t \<in> set (upload_object_tasks w)"
      then show "failed (?f t) = None" using nf by simp
    qed (rule nf)
    have ids: "map task_id (update_task i ?f (upload_object_tasks w)) = map task_id (upload_object_tasks w)"
      by (rule update_task_ids) simp
    show ?thesis
      by (rule WriteBufferFromS3_order_inv_step[OF assms _ _ _ _ _ _ ids nf' _ P'])
         (simp_all add: accepted(6) put)
  next
    case (refused task request err)
    note m = find_task_member[OF refused(2)]
    let ?f = "\<lambda>t. t\<lparr>exception := Some (S3Exception (GetErrorType err)), is_finished := True\<rparr>"
    have uc: "\<not> (\<forall>t \<in> set (update_task i ?f (upload_object_tasks w)). clean_task t)"
      using m by (intro unclean_update_gains[of task]) (simp_all add: clean_task_def)
    from tasks_numbered_member[of "length (part_tags w)" "upload_object_tasks w" task] np m refused(4)
    have "part_number_of request \<noteq> None" by auto
    then have cf: "complete_free [(request, Failure err)]" by (rule part_request_complete_free)
    have P': "parts_in_order (calls w @ [(request, Failure err)]) (part_tags w)
        (update_task i ?f (upload_object_tasks w))"
      using np uc cf by (intro parts_in_order_unclean) (simp_all add: tasks_numbered_update)
    have nf': "\<forall>t \<in> set (update_task i ?f (upload_object_tasks w)). failed t = None"
    proof (intro update_task_all)
      fix t assume "t \<in> set (upload_object_tasks w)"
      then show "failed (?f t) = None" using nf by simp
    qed (rule nf)
    have ids: "map task_id (update_task i ?f (upload_object_tasks w)) = map task_id (upload_object_tasks w)"
      by (rule update_task_ids) simp
    show ?thesis
      by (rule WriteBufferFromS3_order_inv_step[OF assms _ _ _ _ _ _ ids nf' _ P'])
         (simp_all add: refused(6) put)
  qed
qed

lemma WriteBufferFromS3_order_inv_fold:
  "WriteBufferFromS3_order_inv w \<Longrightarrow> WriteBufferFromS3_order_inv (fold WriteBufferFromS3_run_task steps w)"
  by (induction steps arbitrary: w) (simp_all add: WriteBufferFromS3_order_inv_run_task)

lemma WriteBufferFromS3_order_inv_ticks:
  "WriteBufferFromS3_order_inv (w\<lparr>ticks := n\<rparr>) = WriteBufferFromS3_order_inv w"
  by (simp add: WriteBufferFromS3_order_inv_def)

lemma WriteBufferFromS3_order_inv_pool_runs:
  "WriteBufferFromS3_order_inv w \<Longrightarrow> WriteBufferFromS3_order_inv (pool_runs WriteBufferFromS3_run_task w)"
  by (cases "schedule w")
     (simp_all add: pool_runs_def WriteBufferFromS3_order_inv_ticks WriteBufferFromS3_order_inv_fold)

text \<open>The tasks keep their identities, a finished task stays finished, and a step of a task
  finishes it.\<close>

lemma WriteBufferFromS3_run_task_tasks:
  obtains "upload_object_tasks (WriteBufferFromS3_run_task i w) = upload_object_tasks w"
      "0 < i \<longrightarrow> (\<forall>task. find (\<lambda>t. task_id t = i) (upload_object_tasks w) = Some task \<longrightarrow> is_finished task)"
  | f where "upload_object_tasks (WriteBufferFromS3_run_task i w) = update_task i f (upload_object_tasks w)"
      "\<And>t. is_finished (f t) \<and> task_id (f t) = task_id t"
proof (cases rule: WriteBufferFromS3_run_task_cases[of i w])
  case idle
  then show ?thesis by (intro that(1)) simp_all
next
  case (put task cs e)
  then show ?thesis by (intro that(1)) simp_all
next
  case (no_request task)
  have "upload_object_tasks (WriteBufferFromS3_run_task i w)
      = update_task i (\<lambda>t. t\<lparr>tag := tag task, is_finished := True\<rparr>) (upload_object_tasks w)"
    using no_request
    by (simp add: WriteBufferFromS3_run_task_def WriteBufferFromS3_processUploadRequest_def
        WriteBufferFromS3_task_finish_notify_def update_task_twice)
  then show ?thesis by (rule that(2)) simp
next
  case (accepted task request etag)
  have "upload_object_tasks (WriteBufferFromS3_run_task i w)
      = update_task i (\<lambda>t. t\<lparr>tag := etag, is_finished := True\<rparr>) (upload_object_tasks w)"
    by (simp add: accepted(6))
  then show ?thesis by (rule that(2)) simp
next
  case (refused task request err)
  have "upload_object_tasks (WriteBufferFromS3_run_task i w)
      = update_task i (\<lambda>t. t\<lparr>exception := Some (S3Exception (GetErrorType err)), is_finished := True\<rparr>)
          (upload_object_tasks w)"
    by (simp add: refused(6))
  then show ?thesis by (rule that(2)) simp
qed

lemma WriteBufferFromS3_run_task_ids:
  "map task_id (upload_object_tasks (WriteBufferFromS3_run_task i w)) = map task_id (upload_object_tasks w)"
proof (cases rule: WriteBufferFromS3_run_task_tasks[of i w])
  case 1
  then show ?thesis by simp
next
  case (2 f)
  have "map task_id (update_task i f (upload_object_tasks w)) = map task_id (upload_object_tasks w)"
    by (rule update_task_ids) (simp add: 2(2))
  then show ?thesis by (simp add: 2(1))
qed

lemma WriteBufferFromS3_run_task_keeps_finished:
  assumes "\<forall>t \<in> set (upload_object_tasks w). task_id t = k \<longrightarrow> is_finished t"
  shows "\<forall>t \<in> set (upload_object_tasks (WriteBufferFromS3_run_task i w)). task_id t = k \<longrightarrow> is_finished t"
proof (cases rule: WriteBufferFromS3_run_task_tasks[of i w])
  case 1
  then show ?thesis using assms by simp
next
  case (2 f)
  have "\<forall>t \<in> set (update_task i f (upload_object_tasks w)). task_id t = k \<longrightarrow> is_finished t"
  proof (intro update_task_all)
    fix t
    show "task_id (f t) = k \<longrightarrow> is_finished (f t)" by (simp add: 2(2))
  qed (rule assms)
  then show ?thesis by (simp add: 2(1))
qed

lemma WriteBufferFromS3_run_task_finishes:
  assumes "distinct (map task_id (upload_object_tasks w))" and "0 < i"
  shows "\<forall>t \<in> set (upload_object_tasks (WriteBufferFromS3_run_task i w)). task_id t = i \<longrightarrow> is_finished t"
proof (cases rule: WriteBufferFromS3_run_task_tasks[of i w])
  case 1
  have "is_finished t" if "t \<in> set (upload_object_tasks w)" "task_id t = i" for t
  proof (cases "find (\<lambda>t. task_id t = i) (upload_object_tasks w)")
    case None
    then show ?thesis using that by (auto simp: find_None_iff)
  next
    case (Some task)
    then have "t = task" using task_ids_unique[OF assms(1) Some that] by simp
    then show ?thesis using 1(2) assms(2) Some by simp
  qed
  then show ?thesis using 1(1) by simp
next
  case (2 f)
  have "t \<in> set (update_task i f (upload_object_tasks w)) \<Longrightarrow> task_id t = i \<Longrightarrow> is_finished t" for t
    unfolding update_task_set using 2(2) by (cases "is_finished t") auto
  then show ?thesis by (simp add: 2(1))
qed

lemma WriteBufferFromS3_fold_keeps_finished:
  assumes "\<forall>t \<in> set (upload_object_tasks w). task_id t = k \<longrightarrow> is_finished t"
  shows "\<forall>t \<in> set (upload_object_tasks (fold (\<lambda>t s. WriteBufferFromS3_run_task (task_id t) s) ts w)).
           task_id t = k \<longrightarrow> is_finished t"
  using assms
proof (induction ts arbitrary: w)
  case Nil
  then show ?case by simp
next
  case (Cons a ts)
  from WriteBufferFromS3_run_task_keeps_finished[OF Cons.prems, of "task_id a"]
  show ?case by (simp add: Cons.IH)
qed

lemma WriteBufferFromS3_fold_ids:
  "map task_id (upload_object_tasks (fold (\<lambda>t s. WriteBufferFromS3_run_task (task_id t) s) ts w))
     = map task_id (upload_object_tasks w)"
  by (induction ts arbitrary: w) (simp_all add: WriteBufferFromS3_run_task_ids)

lemma WriteBufferFromS3_fold_finishes:
  assumes "distinct (map task_id (upload_object_tasks w))" and "\<forall>t \<in> set ts. 0 < task_id t"
    and "a \<in> set ts"
  shows "\<forall>t \<in> set (upload_object_tasks (fold (\<lambda>t s. WriteBufferFromS3_run_task (task_id t) s) ts w)).
           task_id t = task_id a \<longrightarrow> is_finished t"
  using assms
proof (induction ts arbitrary: w)
  case Nil
  then show ?case by simp
next
  case (Cons b ts)
  define w1 where "w1 = WriteBufferFromS3_run_task (task_id b) w"
  have d1: "distinct (map task_id (upload_object_tasks w1))"
    using Cons.prems(1) by (simp add: w1_def WriteBufferFromS3_run_task_ids)
  show ?case
  proof (cases "task_id b = task_id a")
    case True
    have "0 < task_id b" using Cons.prems(2) by simp
    from WriteBufferFromS3_run_task_finishes[OF Cons.prems(1) this]
    have "\<forall>t \<in> set (upload_object_tasks w1). task_id t = task_id a \<longrightarrow> is_finished t"
      by (simp add: w1_def True)
    from WriteBufferFromS3_fold_keeps_finished[OF this, of ts] show ?thesis by (simp add: w1_def)
  next
    case False
    then have "a \<in> set ts" using Cons.prems(3) by auto
    moreover have "\<forall>t \<in> set ts. 0 < task_id t" using Cons.prems(2) by simp
    ultimately show ?thesis using Cons.IH[OF d1] by (simp add: w1_def)
  qed
qed

lemma WriteBufferFromS3_wait_finished_all:
  assumes "WriteBufferFromS3_order_inv w"
  shows "\<forall>t \<in> set (upload_object_tasks (WriteBufferFromS3_wait_finished w)). is_finished t"
proof
  define w1 where "w1 = pool_runs WriteBufferFromS3_run_task w"
  define w2 where "w2 = fold (\<lambda>t s. WriteBufferFromS3_run_task (task_id t) s) (upload_object_tasks w1) w1"
  have e: "WriteBufferFromS3_wait_finished w = w2"
    by (simp add: WriteBufferFromS3_wait_finished_def Let_def w1_def w2_def)
  have inv1: "WriteBufferFromS3_order_inv w1"
    unfolding w1_def by (rule WriteBufferFromS3_order_inv_pool_runs[OF assms])
  then have d: "distinct (map task_id (upload_object_tasks w1))"
    and p: "\<forall>t \<in> set (upload_object_tasks w1). 0 < task_id t"
    by (simp_all add: WriteBufferFromS3_order_inv_def)
  fix t assume "t \<in> set (upload_object_tasks (WriteBufferFromS3_wait_finished w))"
  then have t: "t \<in> set (upload_object_tasks w2)" by (simp add: e)
  then have "task_id t \<in> set (map task_id (upload_object_tasks w2))"
    by simp
  then have "task_id t \<in> set (map task_id (upload_object_tasks w1))"
    by (simp add: w2_def WriteBufferFromS3_fold_ids)
  then obtain a where a: "a \<in> set (upload_object_tasks w1)" "task_id a = task_id t" by auto
  from WriteBufferFromS3_fold_finishes[OF d p a(1)]
  have "\<forall>t \<in> set (upload_object_tasks w2). task_id t = task_id a \<longrightarrow> is_finished t"
    by (simp add: w2_def)
  with t a(2) show "is_finished t" by simp
qed

lemma WriteBufferFromS3_order_inv_wait_finished:
  assumes "WriteBufferFromS3_order_inv w"
  shows "WriteBufferFromS3_order_inv (WriteBufferFromS3_wait_finished w)"
proof -
  have "WriteBufferFromS3_order_inv (fold (\<lambda>t s. WriteBufferFromS3_run_task (task_id t) s) ts s)"
    if "WriteBufferFromS3_order_inv s" for ts s
    using that by (induction ts arbitrary: s) (simp_all add: WriteBufferFromS3_order_inv_run_task)
  then show ?thesis
    using WriteBufferFromS3_order_inv_pool_runs[OF assms]
    by (simp add: WriteBufferFromS3_wait_finished_def Let_def)
qed

end
